theory Spec2Isabelle
  imports Main "HOL-Library.Product_Lexorder" "HOL-Library.Multiset"
begin

section \<open>Strings\<close>

text \<open>
  A Python \<^verbatim>\<open>str\<close> is a sequence of Unicode code points, and \<^verbatim>\<open>len\<close>,
  \<^verbatim>\<open>strip\<close> and \<^verbatim>\<open>isdigit\<close> work on code points. A string is therefore a list
  of code points, each a natural number. \<open>ascii\<close> writes an ASCII literal.
\<close>

type_synonym pstr = "nat list"

definition ascii :: "string \<Rightarrow> pstr" where
  "ascii s = map of_char s"

fun in_ranges :: "nat \<Rightarrow> (nat \<times> nat) list \<Rightarrow> bool" where
  "in_ranges c [] = False"
| "in_ranges c ((a, b) # rs) = ((a \<le> c \<and> c \<le> b) \<or> in_ranges c rs)"

text \<open>
  \<^verbatim>\<open>str.strip()\<close> with no argument removes leading and trailing white space, the
  code points for which \<^verbatim>\<open>str.isspace\<close> holds.
\<close>

definition isspace :: "nat \<Rightarrow> bool" where
  "isspace c = in_ranges c
     [(9, 13), (28, 32), (133, 133), (160, 160), (5760, 5760), (8192, 8202),
      (8232, 8233), (8239, 8239), (8287, 8287), (12288, 12288)]"

definition strip :: "pstr \<Rightarrow> pstr" where
  "strip s = rev (dropWhile isspace (rev (dropWhile isspace s)))"

text \<open>
  The Unicode decimal digits (general category Nd) come in runs of ten, in ascending
  order of value. They are what \<^verbatim>\<open>\d\<close> matches in a regular expression over
  \<^verbatim>\<open>str\<close>, what \<^verbatim>\<open>int\<close> converts and what \<^verbatim>\<open>str.isdecimal\<close> accepts. The runs
  are those of Unicode 14.0 (CPython 3.11).
\<close>

definition decimal_runs :: "(nat \<times> nat) list" where
  "decimal_runs =
    [(1632, 1641), (1776, 1785), (1984, 1993), (2406, 2415), (2534, 2543),
     (2662, 2671), (2790, 2799), (2918, 2927), (3046, 3055), (3174, 3183), (3302, 3311),
     (3430, 3439), (3558, 3567), (3664, 3673), (3792, 3801), (3872, 3881), (4160, 4169),
     (4240, 4249), (6112, 6121), (6160, 6169), (6470, 6479), (6608, 6617), (6784, 6793),
     (6800, 6809), (6992, 7001), (7088, 7097), (7232, 7241), (7248, 7257), (42528, 42537),
     (43216, 43225), (43264, 43273), (43472, 43481), (43504, 43513), (43600, 43609),
     (44016, 44025), (65296, 65305), (66720, 66729), (68912, 68921), (69734, 69743),
     (69872, 69881), (69942, 69951), (70096, 70105), (70384, 70393), (70736, 70745),
     (70864, 70873), (71248, 71257), (71360, 71369), (71472, 71481), (71904, 71913),
     (72016, 72025), (72784, 72793), (73040, 73049), (73120, 73129), (92768, 92777),
     (92864, 92873), (93008, 93017), (120782, 120831), (123200, 123209), (123632, 123641),
     (125264, 125273), (130032, 130041)]"

fun run_value :: "nat \<Rightarrow> (nat \<times> nat) list \<Rightarrow> nat option" where
  "run_value c [] = None"
| "run_value c ((a, b) # rs) =
     (if a \<le> c \<and> c \<le> b then Some ((c - a) mod 10) else run_value c rs)"

text \<open>The value of a decimal digit; \<open>None\<close> for every other code point.\<close>

definition decimal :: "nat \<Rightarrow> nat option" where
  "decimal c = (if 48 \<le> c \<and> c \<le> 57 then Some (c - 48) else run_value c decimal_runs)"

text \<open>
  \<^verbatim>\<open>str.isdigit\<close> accepts more than the decimal digits: every code point whose
  Numeric_Type is Digit or Decimal, so also the superscript and subscript digits, the
  circled digits and others.
\<close>

definition other_digits :: "(nat \<times> nat) list" where
  "other_digits =
    [(178, 179), (185, 185), (4969, 4977), (6618, 6618), (8304, 8304), (8308, 8313),
     (8320, 8329), (9312, 9320), (9332, 9340), (9352, 9360), (9450, 9450), (9461, 9469),
     (9471, 9471), (10102, 10110), (10112, 10120), (10122, 10130), (68160, 68163),
     (69216, 69224), (69714, 69722), (127232, 127242)]"

definition isdigit_cp :: "nat \<Rightarrow> bool" where
  "isdigit_cp c = (case decimal c of Some v \<Rightarrow> True | None \<Rightarrow> in_ranges c other_digits)"

text \<open>\<^verbatim>\<open>s.isdigit()\<close>: at least one character, and all of them digits.\<close>

definition isdigit :: "pstr \<Rightarrow> bool" where
  "isdigit s = (s \<noteq> [] \<and> list_all isdigit_cp s)"

section \<open>Exceptions\<close>

text \<open>
  The messages of the exceptions the program raises itself, and of those the standard
  library raises on its behalf.
  \<^item> \<open>PhoneTenDigits\<close>: the phone number must consist of exactly 10 digits
    (\<^verbatim>\<open>Phone.__init__\<close>);
  \<^item> \<open>InvalidDateFormat\<close>: "Invalid date format. Use DD.MM.YYYY" (\<^verbatim>\<open>Birthday.__init__\<close>);
  \<^item> \<open>PhoneNotInContact\<close>: this number is not in the contact (\<^verbatim>\<open>remove_phone\<close>);
  \<^item> \<open>OldPhoneNotFound\<close>: the old number was not found in the contact (\<^verbatim>\<open>edit_phone\<close>);
  \<^item> \<open>BirthdayAlreadySet\<close>: a birthday is already set for this contact
    (\<^verbatim>\<open>add_birthday\<close>);
  \<^item> \<open>ContactNameNotFound\<close>: no contact with this name (\<^verbatim>\<open>AddressBook.delete\<close>);
  \<^item> \<open>NotEnoughValues n k\<close>: unpacking \<open>k\<close> arguments into at least \<open>n\<close> names;
  \<^item> \<open>TimeDataMismatch\<close>, \<open>UnconvertedData\<close>: \<^verbatim>\<open>strptime\<close> on a string that does
    not match the format, or matches it with text left over;
  \<^item> \<open>YearOutOfRange\<close>, \<open>MonthOutOfRange\<close>, \<open>DayOutOfRange\<close>: the constructor of
    \<^verbatim>\<open>date\<close> on a year outside 1..9999, a month outside 1..12, a day the month
    does not have.
\<close>

datatype message =
    PhoneTenDigits | InvalidDateFormat | PhoneNotInContact | OldPhoneNotFound
  | BirthdayAlreadySet | ContactNameNotFound | NotEnoughValues nat nat
  | TimeDataMismatch | UnconvertedData
  | YearOutOfRange | MonthOutOfRange | DayOutOfRange

datatype exn =
    ValueError message | KeyError message | AttributeError | IndexError
  | OverflowError | OSError | EOFError

section \<open>Validated fields\<close>

text \<open>
  \<^verbatim>\<open>Phone(value)\<close> strips the string and raises \<^verbatim>\<open>ValueError\<close> unless what is left
  is all digits and ten characters long; the field keeps the stripped string.
\<close>

definition Phone :: "pstr \<Rightarrow> exn + pstr" where
  "Phone v =
     (let raw = strip v in
      if \<not> (isdigit raw \<and> length raw = 10) then Inl (ValueError PhoneTenDigits)
      else Inr raw)"

section \<open>Calendar dates\<close>

text \<open>
  \<^verbatim>\<open>datetime.date\<close> of the standard library: a year in 1..9999, a month and a day the
  month has in that year (proleptic Gregorian calendar). The functions follow the
  library's own: \<^verbatim>\<open>_is_leap\<close>, \<^verbatim>\<open>_days_in_month\<close>, \<^verbatim>\<open>_days_before_year\<close>,
  \<^verbatim>\<open>_days_before_month\<close>, \<^verbatim>\<open>_ymd2ord\<close>, \<^verbatim>\<open>_ord2ymd\<close>.
\<close>

record date =
  year :: int
  month :: int
  day :: int

definition is_leap :: "int \<Rightarrow> bool" where
  "is_leap y = (y mod 4 = 0 \<and> (y mod 100 \<noteq> 0 \<or> y mod 400 = 0))"

text \<open>The tables \<^verbatim>\<open>_DAYS_IN_MONTH\<close> and \<^verbatim>\<open>_DAYS_BEFORE_MONTH\<close>, for a common year.\<close>

definition DAYS_IN_MONTH :: "int \<Rightarrow> int" where
  "DAYS_IN_MONTH m =
     (if m = 2 then 28 else if m = 4 \<or> m = 6 \<or> m = 9 \<or> m = 11 then 30 else 31)"

definition DAYS_BEFORE_MONTH :: "int \<Rightarrow> int" where
  "DAYS_BEFORE_MONTH m =
     (if m = 1 then 0 else if m = 2 then 31 else if m = 3 then 59 else if m = 4 then 90
      else if m = 5 then 120 else if m = 6 then 151 else if m = 7 then 181
      else if m = 8 then 212 else if m = 9 then 243 else if m = 10 then 273
      else if m = 11 then 304 else 334)"

definition days_in_month :: "int \<Rightarrow> int \<Rightarrow> int" where
  "days_in_month y m = (if m = 2 \<and> is_leap y then 29 else DAYS_IN_MONTH m)"

definition days_before_year :: "int \<Rightarrow> int" where
  "days_before_year y = (y - 1) * 365 + (y - 1) div 4 - (y - 1) div 100 + (y - 1) div 400"

definition days_before_month :: "int \<Rightarrow> int \<Rightarrow> int" where
  "days_before_month y m = DAYS_BEFORE_MONTH m + (if m > 2 \<and> is_leap y then 1 else 0)"

definition toordinal :: "date \<Rightarrow> int" where
  "toordinal d = days_before_year (year d) + days_before_month (year d) (month d) + day d"

definition MAXORDINAL :: int where
  "MAXORDINAL = 3652059"

definition valid_date :: "date \<Rightarrow> bool" where
  "valid_date d =
     (1 \<le> year d \<and> year d \<le> 9999 \<and> 1 \<le> month d \<and> month d \<le> 12 \<and>
      1 \<le> day d \<and> day d \<le> days_in_month (year d) (month d))"

text \<open>The constructor \<^verbatim>\<open>date(year, month, day)\<close> with its range checks, in their order.\<close>

definition make_date :: "int \<Rightarrow> int \<Rightarrow> int \<Rightarrow> exn + date" where
  "make_date y m d =
     (if \<not> (1 \<le> y \<and> y \<le> 9999) then Inl (ValueError YearOutOfRange)
      else if \<not> (1 \<le> m \<and> m \<le> 12) then Inl (ValueError MonthOutOfRange)
      else if \<not> (1 \<le> d \<and> d \<le> days_in_month y m) then Inl (ValueError DayOutOfRange)
      else Inr \<lparr>year = y, month = m, day = d\<rparr>)"

text \<open>\<^verbatim>\<open>d.replace(year=y)\<close> builds a new date from the changed fields.\<close>

definition replace_year :: "date \<Rightarrow> int \<Rightarrow> exn + date" where
  "replace_year d y = make_date y (month d) (day d)"

text \<open>
  \<^verbatim>\<open>_ord2ymd\<close>: the date of an ordinal, by the cycles of 400, 100, 4 and 1 years.
  Its last part, from the number \<open>n\<close> of days that precede the day in its year to
  the month and the day, is \<open>month_day\<close>: an estimate of the month that is right or
  one too large, then the correction.
\<close>

definition month_day :: "bool \<Rightarrow> int \<Rightarrow> int \<times> int" where
  "month_day leapyear n =
     (let m = (n + 50) div 32;
          preceding = DAYS_BEFORE_MONTH m + (if m > 2 \<and> leapyear then 1 else 0)
      in if preceding > n
         then (m - 1,
               n - (preceding - (DAYS_IN_MONTH (m - 1) + (if m - 1 = 2 \<and> leapyear then 1 else 0))) + 1)
         else (m, n - preceding + 1))"

definition ord2ymd :: "int \<Rightarrow> date" where
  "ord2ymd n0 =
     (let n = n0 - 1;
          n400 = n div 146097; n = n mod 146097;
          n100 = n div 36524; n = n mod 36524;
          n4 = n div 1461; n = n mod 1461;
          n1 = n div 365; n = n mod 365;
          y = n400 * 400 + 1 + (n100 * 100 + n4 * 4 + n1)
      in if n1 = 4 \<or> n100 = 4 then \<lparr>year = y - 1, month = 12, day = 31\<rparr>
         else
           let leapyear = (n1 = 3 \<and> (n4 \<noteq> 24 \<or> n100 = 3));
               (m, d) = month_day leapyear n
           in \<lparr>year = y, month = m, day = d\<rparr>)"

text \<open>
  \<^verbatim>\<open>d + timedelta(days=n)\<close>: \<^verbatim>\<open>OverflowError\<close> when the result is not a date (a
  \<^verbatim>\<open>timedelta\<close> too large to build raises the same exception).
\<close>

definition date_add :: "date \<Rightarrow> int \<Rightarrow> exn + date" where
  "date_add d n =
     (let o' = toordinal d + n in
      if 0 < o' \<and> o' \<le> MAXORDINAL then Inr (ord2ymd o') else Inl OverflowError)"

text \<open>\<^verbatim>\<open>d.weekday()\<close>: Monday is 0, Saturday 5, Sunday 6.\<close>

definition weekday :: "date \<Rightarrow> int" where
  "weekday d = (toordinal d + 6) mod 7"

text \<open>Dates compare as the tuples (year, month, day).\<close>

definition date_tuple :: "date \<Rightarrow> int \<times> int \<times> int" where
  "date_tuple d = (year d, month d, day d)"

definition date_lt :: "date \<Rightarrow> date \<Rightarrow> bool" where
  "date_lt a b = (date_tuple a < date_tuple b)"

definition date_le :: "date \<Rightarrow> date \<Rightarrow> bool" where
  "date_le a b = (date_tuple a \<le> date_tuple b)"

subsection \<open>Parsing and formatting with the pattern \<^verbatim>\<open>%d.%m.%Y\<close>\<close>

text \<open>
  \<^verbatim>\<open>strptime\<close> turns the format into the regular expression
  \<^verbatim>\<open>(?P<d>3[0-1]|[1-2]\d|0[1-9]|[1-9]| [1-9])\.(?P<m>1[0-2]|0[1-9]|[1-9])\.(?P<Y>\d\d\d\d)\<close>
  and matches it at the start of the string. Each piece of the expression is a function
  from the text to the ways it can match, in the order the matcher tries them: a list
  of the matched group and the text left.
\<close>

definition digit_in :: "nat \<Rightarrow> nat \<Rightarrow> nat \<Rightarrow> bool" where
  "digit_in lo hi c = (48 + lo \<le> c \<and> c \<le> 48 + hi)"

definition re_day :: "pstr \<Rightarrow> (pstr \<times> pstr) list" where
  "re_day s =
     (case s of
        [] \<Rightarrow> []
      | [c1] \<Rightarrow> (if digit_in 1 9 c1 then [([c1], [])] else [])
      | c1 # c2 # r \<Rightarrow>
          (if c1 = 51 \<and> digit_in 0 1 c2 then [([c1, c2], r)] else []) @
          (if digit_in 1 2 c1 \<and> decimal c2 \<noteq> None then [([c1, c2], r)] else []) @
          (if c1 = 48 \<and> digit_in 1 9 c2 then [([c1, c2], r)] else []) @
          (if digit_in 1 9 c1 then [([c1], c2 # r)] else []) @
          (if c1 = 32 \<and> digit_in 1 9 c2 then [([c1, c2], r)] else []))"

definition re_month :: "pstr \<Rightarrow> (pstr \<times> pstr) list" where
  "re_month s =
     (case s of
        [] \<Rightarrow> []
      | [c1] \<Rightarrow> (if digit_in 1 9 c1 then [([c1], [])] else [])
      | c1 # c2 # r \<Rightarrow>
          (if c1 = 49 \<and> digit_in 0 2 c2 then [([c1, c2], r)] else []) @
          (if c1 = 48 \<and> digit_in 1 9 c2 then [([c1, c2], r)] else []) @
          (if digit_in 1 9 c1 then [([c1], c2 # r)] else []))"

definition re_year :: "pstr \<Rightarrow> (pstr \<times> pstr) list" where
  "re_year s =
     (case s of
        c1 # c2 # c3 # c4 # r \<Rightarrow>
          (if decimal c1 \<noteq> None \<and> decimal c2 \<noteq> None \<and> decimal c3 \<noteq> None \<and>
              decimal c4 \<noteq> None
           then [([c1, c2, c3, c4], r)] else [])
      | _ \<Rightarrow> [])"

definition re_dot :: "pstr \<Rightarrow> pstr list" where
  "re_dot s = (case s of [] \<Rightarrow> [] | c # r \<Rightarrow> (if c = 46 then [r] else []))"

text \<open>All matches of the whole expression, the one the matcher finds first.\<close>

definition re_matches :: "pstr \<Rightarrow> (pstr \<times> pstr \<times> pstr \<times> pstr) list" where
  "re_matches s =
     [(d, m, y, r5). (d, r1) \<leftarrow> re_day s, r2 \<leftarrow> re_dot r1, (m, r3) \<leftarrow> re_month r2,
                     r4 \<leftarrow> re_dot r3, (y, r5) \<leftarrow> re_year r4]"

text \<open>\<^verbatim>\<open>int(s)\<close> on a matched group: white space around it is ignored.\<close>

definition py_int :: "pstr \<Rightarrow> int" where
  "py_int s = foldl (\<lambda>a c. 10 * a + int (case decimal c of None \<Rightarrow> 0 | Some v \<Rightarrow> v)) 0 (strip s)"

text \<open>
  \<^verbatim>\<open>datetime.strptime(s, "%d.%m.%Y").date()\<close>: \<^verbatim>\<open>ValueError\<close> when the expression
  does not match, when text is left after the match, and when the numbers are not a
  date.
\<close>

definition strptime :: "pstr \<Rightarrow> exn + date" where
  "strptime s =
     (case re_matches s of
        [] \<Rightarrow> Inl (ValueError TimeDataMismatch)
      | (d, m, y, rest) # _ \<Rightarrow>
          if rest \<noteq> [] then Inl (ValueError UnconvertedData)
          else make_date (py_int y) (py_int m) (py_int d))"

text \<open>
  \<^verbatim>\<open>d.strftime("%d.%m.%Y")\<close>, as CPython 3.11 formats it with the C library of
  Linux (the version the tables of digits above are taken from): day and month with
  two digits, and the year as a decimal number that is not padded. A year from 1000 on
  has its four digits; an earlier year has fewer, and \<open>strptime\<close>, which asks for four,
  does not parse it back.
\<close>

definition fmt2 :: "int \<Rightarrow> pstr" where
  "fmt2 n = [48 + nat (n div 10 mod 10), 48 + nat (n mod 10)]"

definition fmt4 :: "int \<Rightarrow> pstr" where
  "fmt4 n = [48 + nat (n div 1000 mod 10), 48 + nat (n div 100 mod 10),
             48 + nat (n div 10 mod 10), 48 + nat (n mod 10)]"

definition fmt_year :: "int \<Rightarrow> pstr" where
  "fmt_year n = dropWhile (\<lambda>c. c = 48) (fmt4 n)"

definition strftime :: "date \<Rightarrow> pstr" where
  "strftime d = fmt2 (day d) @ [46] @ fmt2 (month d) @ [46] @ fmt_year (year d)"

text \<open>
  \<^verbatim>\<open>Birthday(value)\<close> parses the stripped string, turns every \<^verbatim>\<open>ValueError\<close> of
  the parser into its own, and keeps the date formatted again.
\<close>

definition Birthday :: "pstr \<Rightarrow> exn + pstr" where
  "Birthday v =
     (case strptime (strip v) of
        Inl (ValueError m) \<Rightarrow> Inl (ValueError InvalidDateFormat)
      | Inl e \<Rightarrow> Inl e
      | Inr dt \<Rightarrow> Inr (strftime dt))"

section \<open>Contact records\<close>

text \<open>
  A \<^verbatim>\<open>Record\<close> holds its name, its phones in the order they were added and its
  birthday, if one is set. A \<^verbatim>\<open>Phone\<close> and a \<^verbatim>\<open>Birthday\<close> object are their
  \<^verbatim>\<open>value\<close>, the validated string. The methods change the record in place; each
  raises before it has changed anything, so a method is a function from the record to
  the exception, or to the record as the call leaves it.
\<close>

record Record =
  name :: pstr
  phones :: "pstr list"
  birthday :: "pstr option"

definition new_Record :: "pstr \<Rightarrow> Record" where
  "new_Record n = \<lparr>name = n, phones = [], birthday = None\<rparr>"

definition add_phone :: "Record \<Rightarrow> pstr \<Rightarrow> exn + Record" where
  "add_phone r phone =
     (case Phone phone of
        Inl e \<Rightarrow> Inl e
      | Inr p \<Rightarrow> if list_ex (\<lambda>ph. ph = p) (phones r) then Inr r
                 else Inr (r\<lparr>phones := phones r @ [p]\<rparr>))"

text \<open>The loop of \<^verbatim>\<open>remove_phone\<close>: delete the first phone equal to the value.\<close>

fun remove_first :: "pstr \<Rightarrow> pstr list \<Rightarrow> pstr list option" where
  "remove_first c [] = None"
| "remove_first c (ph # phs) =
     (if ph = c then Some phs
      else (case remove_first c phs of None \<Rightarrow> None | Some phs' \<Rightarrow> Some (ph # phs')))"

definition remove_phone :: "Record \<Rightarrow> pstr \<Rightarrow> exn + Record" where
  "remove_phone r phone =
     (case Phone phone of
        Inl e \<Rightarrow> Inl e
      | Inr cleaned \<Rightarrow>
          (case remove_first cleaned (phones r) of
             None \<Rightarrow> Inl (ValueError PhoneNotInContact)
           | Some phs \<Rightarrow> Inr (r\<lparr>phones := phs\<rparr>)))"

text \<open>The loop of \<^verbatim>\<open>edit_phone\<close>: overwrite the first phone equal to the old value.\<close>

fun replace_first :: "pstr \<Rightarrow> pstr \<Rightarrow> pstr list \<Rightarrow> pstr list option" where
  "replace_first old new [] = None"
| "replace_first old new (ph # phs) =
     (if ph = old then Some (new # phs)
      else (case replace_first old new phs of None \<Rightarrow> None | Some phs' \<Rightarrow> Some (ph # phs')))"

definition edit_phone :: "Record \<Rightarrow> pstr \<Rightarrow> pstr \<Rightarrow> exn + Record" where
  "edit_phone r old new =
     (case Phone old of
        Inl e \<Rightarrow> Inl e
      | Inr old_clean \<Rightarrow>
          (case Phone new of
             Inl e \<Rightarrow> Inl e
           | Inr new_phone \<Rightarrow>
               (case replace_first old_clean new_phone (phones r) of
                  None \<Rightarrow> Inl (ValueError OldPhoneNotFound)
                | Some phs \<Rightarrow> Inr (r\<lparr>phones := phs\<rparr>))))"

definition add_birthday :: "Record \<Rightarrow> pstr \<Rightarrow> exn + Record" where
  "add_birthday r bday =
     (if birthday r \<noteq> None then Inl (ValueError BirthdayAlreadySet)
      else (case Birthday bday of
              Inl e \<Rightarrow> Inl e
            | Inr b \<Rightarrow> Inr (r\<lparr>birthday := Some b\<rparr>)))"

section \<open>The address book\<close>

text \<open>
  \<^verbatim>\<open>AddressBook\<close> is a \<^verbatim>\<open>UserDict\<close>: a dictionary from the key of a name to the
  record, which keeps its keys in the order they were first stored. It is a list of
  pairs with no key twice (\<open>wf_book\<close>). Storing under a key that is there replaces the
  value where it stands; a new key goes to the end.
\<close>

type_synonym AddressBook = "(pstr \<times> Record) list"

definition wf_book :: "AddressBook \<Rightarrow> bool" where
  "wf_book b = distinct (map fst b)"

fun dict_set :: "AddressBook \<Rightarrow> pstr \<Rightarrow> Record \<Rightarrow> AddressBook" where
  "dict_set [] k v = [(k, v)]"
| "dict_set ((k', v') # b) k v = (if k' = k then (k, v) # b else (k', v') # dict_set b k v)"

definition dict_get :: "AddressBook \<Rightarrow> pstr \<Rightarrow> Record option" where
  "dict_get b k = map_of b k"

definition dict_del :: "AddressBook \<Rightarrow> pstr \<Rightarrow> AddressBook" where
  "dict_del b k = filter (\<lambda>kv. fst kv \<noteq> k) b"

text \<open>
  \<^verbatim>\<open>str.casefold\<close> folds each character by the Unicode case folding table. The
  ASCII part of the table is written out; its rest, which maps a code point from 128
  on to the code points it folds to, is the parameter \<open>cf\<close>.
\<close>

definition casefold_cp :: "(nat \<Rightarrow> nat list) \<Rightarrow> nat \<Rightarrow> nat list" where
  "casefold_cp cf c =
     (if 65 \<le> c \<and> c \<le> 90 then [c + 32] else if c < 128 then [c] else cf c)"

definition casefold :: "(nat \<Rightarrow> nat list) \<Rightarrow> pstr \<Rightarrow> pstr" where
  "casefold cf s = concat (map (casefold_cp cf) s)"

definition key :: "(nat \<Rightarrow> nat list) \<Rightarrow> pstr \<Rightarrow> pstr" where
  "key cf n = casefold cf n"

definition add_record :: "(nat \<Rightarrow> nat list) \<Rightarrow> AddressBook \<Rightarrow> Record \<Rightarrow> AddressBook" where
  "add_record cf b r = dict_set b (key cf (name r)) r"

definition find_rec :: "(nat \<Rightarrow> nat list) \<Rightarrow> AddressBook \<Rightarrow> pstr \<Rightarrow> Record option" where
  "find_rec cf b n = dict_get b (key cf n)"

definition delete :: "(nat \<Rightarrow> nat list) \<Rightarrow> AddressBook \<Rightarrow> pstr \<Rightarrow> exn + AddressBook" where
  "delete cf b n =
     (let k = key cf n in
      if dict_get b k \<noteq> None then Inr (dict_del b k)
      else Inl (KeyError ContactNameNotFound))"

text \<open>
  The invariant of the book: no key twice, and every record stands under the key of its
  own name. With it the book holds at most one record for a case-folded name.
\<close>

definition keyed :: "(nat \<Rightarrow> nat list) \<Rightarrow> AddressBook \<Rightarrow> bool" where
  "keyed cf b = list_all (\<lambda>kv. fst kv = key cf (name (snd kv))) b"

definition book_inv :: "(nat \<Rightarrow> nat list) \<Rightarrow> AddressBook \<Rightarrow> bool" where
  "book_inv cf b = (wf_book b \<and> keyed cf b)"

text \<open>
  Two names differ in case only, as far as ASCII goes, when they are equal once their
  capital letters A to Z are replaced by the small ones.
\<close>

definition ascii_lower :: "nat \<Rightarrow> nat" where
  "ascii_lower c = (if 65 \<le> c \<and> c \<le> 90 then c + 32 else c)"

subsection \<open>Upcoming birthdays\<close>

definition shift_if_weekend :: "date \<Rightarrow> exn + date" where
  "shift_if_weekend d =
     (if weekday d = 5 then date_add d 2
      else if weekday d = 6 then date_add d 1
      else Inr d)"

text \<open>
  The greeting date of one birthday value, as the body of the loop computes it: any
  of the library calls may raise.
\<close>

definition greeting :: "date \<Rightarrow> pstr \<Rightarrow> exn + date" where
  "greeting today v =
     (case strptime v of
        Inl e \<Rightarrow> Inl e
      | Inr bday \<Rightarrow>
          (case replace_year bday (year today) of
             Inl e \<Rightarrow> Inl e
           | Inr bday_this_year \<Rightarrow>
               (case (if date_lt bday_this_year today
                      then replace_year bday_this_year (year today + 1)
                      else Inr bday_this_year) of
                  Inl e \<Rightarrow> Inl e
                | Inr bday_this_year' \<Rightarrow> shift_if_weekend bday_this_year')))"

text \<open>
  An entry of the result is the dictionary \<^verbatim>\<open>{"name": ..., "date": ...}\<close>: the pair
  of the name and the formatted greeting date.
\<close>

type_synonym entry = "pstr \<times> pstr"

fun collect :: "date \<Rightarrow> date \<Rightarrow> Record list \<Rightarrow> entry list \<Rightarrow> exn + entry list" where
  "collect today end_date [] result = Inr result"
| "collect today end_date (r # rs) result =
     (case birthday r of
        None \<Rightarrow> collect today end_date rs result
      | Some v \<Rightarrow>
          (case greeting today v of
             Inl e \<Rightarrow> Inl e
           | Inr greet \<Rightarrow>
               if date_le today greet \<and> date_le greet end_date
               then collect today end_date rs (result @ [(name r, strftime greet)])
               else collect today end_date rs result))"

text \<open>
  \<^verbatim>\<open>result.sort(key=...)\<close> computes the key of every entry first, which raises when
  a date string does not parse, and then sorts by the keys, keeping the order of
  entries with equal keys.
\<close>

fun sort_keys :: "entry list \<Rightarrow> exn + (date \<times> entry) list" where
  "sort_keys [] = Inr []"
| "sort_keys (x # xs) =
     (case strptime (snd x) of
        Inl e \<Rightarrow> Inl e
      | Inr k \<Rightarrow> (case sort_keys xs of Inl e \<Rightarrow> Inl e | Inr ks \<Rightarrow> Inr ((k, x) # ks)))"

definition sort_by_date :: "entry list \<Rightarrow> exn + entry list" where
  "sort_by_date result =
     (case sort_keys result of
        Inl e \<Rightarrow> Inl e
      | Inr ks \<Rightarrow> Inr (map snd (sort_key (\<lambda>kx. date_tuple (fst kx)) ks)))"

text \<open>
  \<^verbatim>\<open>get_upcoming_birthdays(days)\<close> reads the clock (\<^verbatim>\<open>date.today()\<close>); the date read
  is the argument \<open>today\<close>. The method returns the list, or raises; the book it leaves
  is the second component.
\<close>

definition get_upcoming_birthdays ::
    "AddressBook \<Rightarrow> int \<Rightarrow> date \<Rightarrow> (exn + entry list) \<times> AddressBook" where
  "get_upcoming_birthdays b days today =
     (case date_add today (days - 1) of
        Inl e \<Rightarrow> (Inl e, b)
      | Inr end_date \<Rightarrow>
          (case collect today end_date (map snd b) [] of
             Inl e \<Rightarrow> (Inl e, b)
           | Inr result \<Rightarrow> (sort_by_date result, b)))"

section \<open>The application\<close>

text \<open>
  What the program tells the view and what it writes to the file are recorded in one
  trace, in the order of the calls: an event per call of a view method, \<open>Saved b\<close>
  when \<^verbatim>\<open>save_data\<close> has written the book \<open>b\<close>, and the two lines \<^verbatim>\<open>run\<close>
  prints itself. The texts of the messages are named, not spelled:
  \<^item> \<open>HowCanIHelp\<close> "How can I help you?", \<open>ContactAdded\<close> "Contact added.",
    \<open>ContactUpdated\<close> "Contact updated.", \<open>PhoneChanged\<close> "Phone changed.",
    \<open>PhoneRemoved\<close> "Phone removed.", \<open>ContactDeleted\<close> "Contact deleted.",
    \<open>BirthdayAdded\<close> "Birthday added.", \<open>BirthdayIs v\<close> the birthday value \<open>v\<close>,
    \<open>NoBirthdaySet\<close> no birthday is set for this contact, \<open>InvalidCommand\<close>
    "Invalid command." with the hint to type help;
  \<^item> the error reports of \<^verbatim>\<open>input_error\<close>: \<open>NotEnoughArguments\<close>, \<open>ContactNotFound\<close>,
    \<open>ErrorText e\<close> for \<^verbatim>\<open>str(e)\<close> and \<open>Unexpected e\<close> for the text that
    announces an error and gives \<^verbatim>\<open>e\<close>.
\<close>

datatype msgtext =
    HowCanIHelp | ContactAdded | ContactUpdated | PhoneChanged | PhoneRemoved
  | ContactDeleted | BirthdayAdded | BirthdayIs pstr | NoBirthdaySet | InvalidCommand

datatype report = NotEnoughArguments | ContactNotFound | ErrorText exn | Unexpected exn

datatype event =
    Welcome | Goodbye | Message msgtext | Error report | Contact Record
  | Contacts "Record list" | Birthdays "entry list" | Help
  | Saved AddressBook | LoadedNotice | SavedNotice

record App =
  book :: AddressBook
  trace :: "event list"

text \<open>
  What a command reads from outside the program: the date of the clock, and whether the
  file can be written (\<^verbatim>\<open>open(filename, "wb")\<close> raises \<^verbatim>\<open>OSError\<close> when not).
\<close>

record env =
  clock :: date
  writable :: bool

text \<open>
  A statement that can raise after it has changed the state returns the exception, if
  any, and the state it leaves.
\<close>

definition emit :: "event \<Rightarrow> App \<Rightarrow> App" where
  "emit ev a = a\<lparr>trace := trace a @ [ev]\<rparr>"

definition save_data :: "env \<Rightarrow> App \<Rightarrow> exn option \<times> App" where
  "save_data e a =
     (if writable e then (None, emit (Saved (book a)) a) else (Some OSError, a))"

definition autosave :: "env \<Rightarrow> App \<Rightarrow> exn option \<times> App" where
  "autosave e a = save_data e a"

text \<open>
  \<^verbatim>\<open>ConsoleView.show_contact(rec)\<close> reads \<^verbatim>\<open>rec.phones\<close> before it prints: on
  \<^verbatim>\<open>None\<close> it raises \<^verbatim>\<open>AttributeError\<close>.
\<close>

definition show_contact :: "Record option \<Rightarrow> App \<Rightarrow> exn option \<times> App" where
  "show_contact r a =
     (case r of None \<Rightarrow> (Some AttributeError, a) | Some rec \<Rightarrow> (None, emit (Contact rec) a))"

text \<open>
  The decorator \<^verbatim>\<open>input_error\<close>: every exception of the wrapped handler becomes one
  call of \<^verbatim>\<open>show_error\<close>, and the wrapper returns. Every \<^verbatim>\<open>KeyError\<close> of the
  program carries a message, so its \<^verbatim>\<open>str(e)\<close> is never empty.
\<close>

definition report_of :: "exn \<Rightarrow> report" where
  "report_of x =
     (case x of
        IndexError \<Rightarrow> NotEnoughArguments
      | AttributeError \<Rightarrow> ContactNotFound
      | KeyError m \<Rightarrow> ErrorText (KeyError m)
      | ValueError m \<Rightarrow> ErrorText (ValueError m)
      | _ \<Rightarrow> Unexpected x)"

definition input_error :: "(App \<Rightarrow> exn option \<times> App) \<Rightarrow> App \<Rightarrow> exn option \<times> App" where
  "input_error func a =
     (case func a of
        (None, a') \<Rightarrow> (None, a')
      | (Some x, a') \<Rightarrow> (None, emit (Error (report_of x)) a'))"

text \<open>
  A handler finds the record object under the key of the name and calls a method on
  it: the object in the book is changed in place, so the changed record stands where
  the key's value stood.
\<close>

definition in_place :: "(nat \<Rightarrow> nat list) \<Rightarrow> pstr \<Rightarrow> Record \<Rightarrow> App \<Rightarrow> App" where
  "in_place cf n r a = a\<lparr>book := dict_set (book a) (key cf n) r\<rparr>"

text \<open>The end of every handler that changes the book: save, then the message.\<close>

definition save_and_tell :: "env \<Rightarrow> msgtext \<Rightarrow> App \<Rightarrow> exn option \<times> App" where
  "save_and_tell e msg a =
     (case autosave e a of
        (Some x, a') \<Rightarrow> (Some x, a')
      | (None, a') \<Rightarrow> (None, emit (Message msg) a'))"

text \<open>
  The bodies of the handlers, before the decorator. Unpacking
  \<^verbatim>\<open>name, phone, *_ = args\<close> raises \<^verbatim>\<open>ValueError\<close> on a list that is too short;
  a method call on \<^verbatim>\<open>None\<close> raises \<^verbatim>\<open>AttributeError\<close>.
\<close>

definition add_body :: "(nat \<Rightarrow> nat list) \<Rightarrow> env \<Rightarrow> pstr list \<Rightarrow> App \<Rightarrow> exn option \<times> App" where
  "add_body cf e args a =
     (case args of
        n # phone # _ \<Rightarrow>
          (let (r, msg, a1) =
                 (case find_rec cf (book a) n of
                    None \<Rightarrow> (new_Record n, ContactAdded,
                              a\<lparr>book := add_record cf (book a) (new_Record n)\<rparr>)
                  | Some r \<Rightarrow> (r, ContactUpdated, a))
           in case add_phone r phone of
                Inl x \<Rightarrow> (Some x, a1)
              | Inr r' \<Rightarrow> save_and_tell e msg (in_place cf n r' a1))
      | _ \<Rightarrow> (Some (ValueError (NotEnoughValues 2 (length args))), a))"

definition change_body :: "(nat \<Rightarrow> nat list) \<Rightarrow> env \<Rightarrow> pstr list \<Rightarrow> App \<Rightarrow> exn option \<times> App" where
  "change_body cf e args a =
     (case args of
        n # old_p # new_p # _ \<Rightarrow>
          (case find_rec cf (book a) n of
             None \<Rightarrow> (Some AttributeError, a)
           | Some r \<Rightarrow>
               (case edit_phone r old_p new_p of
                  Inl x \<Rightarrow> (Some x, a)
                | Inr r' \<Rightarrow> save_and_tell e PhoneChanged (in_place cf n r' a)))
      | _ \<Rightarrow> (Some (ValueError (NotEnoughValues 3 (length args))), a))"

definition remove_phone_body ::
    "(nat \<Rightarrow> nat list) \<Rightarrow> env \<Rightarrow> pstr list \<Rightarrow> App \<Rightarrow> exn option \<times> App" where
  "remove_phone_body cf e args a =
     (case args of
        n # p # _ \<Rightarrow>
          (case find_rec cf (book a) n of
             None \<Rightarrow> (Some AttributeError, a)
           | Some r \<Rightarrow>
               (case remove_phone r p of
                  Inl x \<Rightarrow> (Some x, a)
                | Inr r' \<Rightarrow> save_and_tell e PhoneRemoved (in_place cf n r' a)))
      | _ \<Rightarrow> (Some (ValueError (NotEnoughValues 2 (length args))), a))"

definition delete_body :: "(nat \<Rightarrow> nat list) \<Rightarrow> env \<Rightarrow> pstr list \<Rightarrow> App \<Rightarrow> exn option \<times> App" where
  "delete_body cf e args a =
     (case args of
        n # _ \<Rightarrow>
          (case delete cf (book a) n of
             Inl x \<Rightarrow> (Some x, a)
           | Inr b' \<Rightarrow> save_and_tell e ContactDeleted (a\<lparr>book := b'\<rparr>))
      | _ \<Rightarrow> (Some (ValueError (NotEnoughValues 1 (length args))), a))"

definition phone_body :: "(nat \<Rightarrow> nat list) \<Rightarrow> pstr list \<Rightarrow> App \<Rightarrow> exn option \<times> App" where
  "phone_body cf args a =
     (case args of
        n # _ \<Rightarrow> show_contact (find_rec cf (book a) n) a
      | _ \<Rightarrow> (Some (ValueError (NotEnoughValues 1 (length args))), a))"

definition add_birthday_body ::
    "(nat \<Rightarrow> nat list) \<Rightarrow> env \<Rightarrow> pstr list \<Rightarrow> App \<Rightarrow> exn option \<times> App" where
  "add_birthday_body cf e args a =
     (case args of
        n # d # _ \<Rightarrow>
          (case find_rec cf (book a) n of
             None \<Rightarrow> (Some AttributeError, a)
           | Some r \<Rightarrow>
               (case add_birthday r d of
                  Inl x \<Rightarrow> (Some x, a)
                | Inr r' \<Rightarrow> save_and_tell e BirthdayAdded (in_place cf n r' a)))
      | _ \<Rightarrow> (Some (ValueError (NotEnoughValues 2 (length args))), a))"

definition show_birthday_body ::
    "(nat \<Rightarrow> nat list) \<Rightarrow> pstr list \<Rightarrow> App \<Rightarrow> exn option \<times> App" where
  "show_birthday_body cf args a =
     (case args of
        n # _ \<Rightarrow>
          (case find_rec cf (book a) n of
             None \<Rightarrow> (Some AttributeError, a)
           | Some r \<Rightarrow>
               (case birthday r of
                  Some v \<Rightarrow> (None, emit (Message (BirthdayIs v)) a)
                | None \<Rightarrow> (None, emit (Message NoBirthdaySet) a)))
      | _ \<Rightarrow> (Some (ValueError (NotEnoughValues 1 (length args))), a))"

text \<open>The handlers as the class defines them: nine decorated, three not.\<close>

definition handle_add :: "(nat \<Rightarrow> nat list) \<Rightarrow> env \<Rightarrow> pstr list \<Rightarrow> App \<Rightarrow> exn option \<times> App" where
  "handle_add cf e args = input_error (add_body cf e args)"

definition handle_change :: "(nat \<Rightarrow> nat list) \<Rightarrow> env \<Rightarrow> pstr list \<Rightarrow> App \<Rightarrow> exn option \<times> App" where
  "handle_change cf e args = input_error (change_body cf e args)"

definition handle_remove_phone ::
    "(nat \<Rightarrow> nat list) \<Rightarrow> env \<Rightarrow> pstr list \<Rightarrow> App \<Rightarrow> exn option \<times> App" where
  "handle_remove_phone cf e args = input_error (remove_phone_body cf e args)"

definition handle_delete :: "(nat \<Rightarrow> nat list) \<Rightarrow> env \<Rightarrow> pstr list \<Rightarrow> App \<Rightarrow> exn option \<times> App" where
  "handle_delete cf e args = input_error (delete_body cf e args)"

definition handle_phone :: "(nat \<Rightarrow> nat list) \<Rightarrow> pstr list \<Rightarrow> App \<Rightarrow> exn option \<times> App" where
  "handle_phone cf args = input_error (phone_body cf args)"

definition handle_all :: "App \<Rightarrow> exn option \<times> App" where
  "handle_all a = (None, emit (Contacts (map snd (book a))) a)"

definition handle_add_birthday ::
    "(nat \<Rightarrow> nat list) \<Rightarrow> env \<Rightarrow> pstr list \<Rightarrow> App \<Rightarrow> exn option \<times> App" where
  "handle_add_birthday cf e args = input_error (add_birthday_body cf e args)"

definition handle_show_birthday ::
    "(nat \<Rightarrow> nat list) \<Rightarrow> pstr list \<Rightarrow> App \<Rightarrow> exn option \<times> App" where
  "handle_show_birthday cf args = input_error (show_birthday_body cf args)"

definition handle_birthdays :: "env \<Rightarrow> App \<Rightarrow> exn option \<times> App" where
  "handle_birthdays e a =
     (case get_upcoming_birthdays (book a) 7 (clock e) of
        (Inl x, b') \<Rightarrow> (Some x, a\<lparr>book := b'\<rparr>)
      | (Inr items, b') \<Rightarrow> (None, emit (Birthdays items) (a\<lparr>book := b'\<rparr>)))"

definition handle_help :: "App \<Rightarrow> exn option \<times> App" where
  "handle_help a = (None, emit Help a)"

subsection \<open>The command loop\<close>

text \<open>
  One turn of the loop of \<^verbatim>\<open>run\<close> on a parsed line: the loop goes on, ends at
  \<^verbatim>\<open>break\<close>, or is left by an exception.
\<close>

datatype flow = Continue | Break | Raise exn

definition after :: "exn option \<times> App \<Rightarrow> flow \<times> App" where
  "after r = (case r of (None, a) \<Rightarrow> (Continue, a) | (Some x, a) \<Rightarrow> (Raise x, a))"

definition loop_body ::
    "(nat \<Rightarrow> nat list) \<Rightarrow> env \<Rightarrow> pstr \<Rightarrow> pstr list \<Rightarrow> App \<Rightarrow> flow \<times> App" where
  "loop_body cf e cmd args a =
     (if cmd = [] then (Continue, a)
      else if cmd = ascii ''exit'' \<or> cmd = ascii ''close'' then (Break, emit Goodbye a)
      else if cmd = ascii ''hello'' then (Continue, emit (Message HowCanIHelp) a)
      else if cmd = ascii ''help'' then after (handle_help a)
      else if cmd = ascii ''add'' then after (handle_add cf e args a)
      else if cmd = ascii ''change'' then after (handle_change cf e args a)
      else if cmd = ascii ''remove-phone'' then after (handle_remove_phone cf e args a)
      else if cmd = ascii ''delete'' then after (handle_delete cf e args a)
      else if cmd = ascii ''phone'' then after (handle_phone cf args a)
      else if cmd = ascii ''all'' then after (handle_all a)
      else if cmd = ascii ''add-birthday'' then after (handle_add_birthday cf e args a)
      else if cmd = ascii ''show-birthday'' then after (handle_show_birthday cf args a)
      else if cmd = ascii ''birthdays'' then after (handle_birthdays e a)
      else (Continue, emit (Message InvalidCommand) a))"

text \<open>
  \<^verbatim>\<open>parse_input\<close> splits the stripped line with \<^verbatim>\<open>shlex.split\<close>, which raises
  \<^verbatim>\<open>ValueError\<close> on a quotation that is not closed, and lowers the first word with
  \<^verbatim>\<open>str.lower\<close>. Both library functions are parameters.
\<close>

definition parse_input ::
    "(pstr \<Rightarrow> exn + pstr list) \<Rightarrow> (pstr \<Rightarrow> pstr) \<Rightarrow> pstr \<Rightarrow> exn + pstr \<times> pstr list" where
  "parse_input shlex_split lower line =
     (case shlex_split (strip line) of
        Inl x \<Rightarrow> Inl x
      | Inr parts \<Rightarrow> (case parts of [] \<Rightarrow> Inr ([], []) | p # ps \<Rightarrow> Inr (lower p, ps)))"

text \<open>
  The loop reads its lines from the input, each with what the command reads from
  outside; \<^verbatim>\<open>input\<close> raises \<^verbatim>\<open>EOFError\<close> when the input has ended.
\<close>

fun run_loop ::
    "(pstr \<Rightarrow> exn + pstr list) \<Rightarrow> (pstr \<Rightarrow> pstr) \<Rightarrow> (nat \<Rightarrow> nat list) \<Rightarrow> (env \<times> pstr) list \<Rightarrow>
     App \<Rightarrow> exn option \<times> App" where
  "run_loop shlex_split lower cf [] a = (Some EOFError, a)"
| "run_loop shlex_split lower cf ((e, line) # rest) a =
     (case parse_input shlex_split lower line of
        Inl x \<Rightarrow> (Some x, a)
      | Inr (cmd, args) \<Rightarrow>
          (case loop_body cf e cmd args a of
             (Continue, a') \<Rightarrow> run_loop shlex_split lower cf rest a'
           | (Break, a') \<Rightarrow> (None, a')
           | (Raise x, a') \<Rightarrow> (Some x, a')))"

text \<open>
  \<^verbatim>\<open>run\<close>: the loop, and in \<^verbatim>\<open>finally\<close> one more save, whose own exception
  replaces the one of the loop. \<open>e\<close> is what the last save finds outside.
\<close>

definition run ::
    "(pstr \<Rightarrow> exn + pstr list) \<Rightarrow> (pstr \<Rightarrow> pstr) \<Rightarrow> (nat \<Rightarrow> nat list) \<Rightarrow> (env \<times> pstr) list \<Rightarrow>
     env \<Rightarrow> App \<Rightarrow> exn option \<times> App" where
  "run shlex_split lower cf lines e a =
     (case run_loop shlex_split lower cf lines (emit LoadedNotice (emit Welcome a)) of
        (r, a') \<Rightarrow>
          (case save_data e a' of
             (Some x, a'') \<Rightarrow> (Some x, a'')
           | (None, a'') \<Rightarrow> (r, emit SavedNotice a'')))"

section \<open>The commands that change the book, as specified\<close>


section \<open>The upcoming birthdays, as specified\<close>

text \<open>
  The words of the specification, to compare \<open>get_upcoming_birthdays\<close> with. The
  birthday of a record is the date its value parses to. Its month and day are projected
  onto the year of today, and onto the next year when that date is strictly before
  today; a projected date that is a Saturday is shifted forward 2 days, a Sunday 1 day;
  the record is included when the shifted date is today or later and at most
  \<open>days - 1\<close> days after today; the included records are sorted by the shifted date,
  those with the same date in the order of the book.
\<close>

definition plus_days :: "date \<Rightarrow> int \<Rightarrow> date" where
  "plus_days d n = ord2ymd (toordinal d + n)"

definition projected :: "date \<Rightarrow> date \<Rightarrow> date" where
  "projected today bday =
     (if date_lt (bday\<lparr>year := year today\<rparr>) today then bday\<lparr>year := year today + 1\<rparr>
      else bday\<lparr>year := year today\<rparr>)"

definition shifted :: "date \<Rightarrow> date" where
  "shifted d =
     (if weekday d = 5 then plus_days d 2 else if weekday d = 6 then plus_days d 1 else d)"

definition in_window :: "date \<Rightarrow> int \<Rightarrow> date \<Rightarrow> bool" where
  "in_window today days g =
     (toordinal today \<le> toordinal g \<and> toordinal g \<le> toordinal today + (days - 1))"

definition birthday_of :: "Record \<Rightarrow> date" where
  "birthday_of r = projr (strptime (the (birthday r)))"

definition greeting_date :: "date \<Rightarrow> Record \<Rightarrow> date" where
  "greeting_date today r = shifted (projected today (birthday_of r))"

definition upcoming :: "AddressBook \<Rightarrow> int \<Rightarrow> date \<Rightarrow> (Record \<times> date) list" where
  "upcoming b days today =
     sort_key (\<lambda>rg. toordinal (snd rg))
       (filter (\<lambda>rg. in_window today days (snd rg))
          (map (\<lambda>r. (r, greeting_date today r)) (filter (\<lambda>r. birthday r \<noteq> None) (map snd b))))"

text \<open>
  A birthday can be projected when its day exists in its month of the year of today,
  and, if that date is before today, the next year is a year of the calendar and has
  the day too. Only 29 February can be missing.
\<close>

definition projectable :: "date \<Rightarrow> date \<Rightarrow> bool" where
  "projectable today bday =
     (day bday \<le> days_in_month (year today) (month bday) \<and>
      (if date_lt (bday\<lparr>year := year today\<rparr>) today
       then year today < 9999 \<and> day bday \<le> days_in_month (year today + 1) (month bday)
       else True))"

section \<open>Properties of the validated fields\<close>

lemma ascii_digit_decimal: "48 \<le> c \<Longrightarrow> c \<le> 57 \<Longrightarrow> decimal c = Some (c - 48)"
  by (simp add: decimal_def)

lemma ascii_isdigit_cp: "48 \<le> c \<Longrightarrow> c \<le> 57 \<Longrightarrow> isdigit_cp c"
  by (simp add: isdigit_cp_def ascii_digit_decimal)

text \<open>
  What \<^verbatim>\<open>Phone\<close> accepts, in full: the stripped string has ten characters and
  \<^verbatim>\<open>isdigit\<close> holds of each.
\<close>

lemma Phone_Inr_iff:
  "(Phone s = Inr p) = (p = strip s \<and> length (strip s) = 10 \<and> list_all isdigit_cp (strip s))"
  by (auto simp: Phone_def Let_def isdigit_def)

lemma Phone_Inl: "Phone s = Inl x \<Longrightarrow> x = ValueError PhoneTenDigits"
  by (auto simp: Phone_def Let_def split: if_splits)

lemma strip_nine_digits_superscript:
  "strip [49, 50, 51, 52, 53, 54, 55, 56, 57, 178] = [49, 50, 51, 52, 53, 54, 55, 56, 57, 178]"
  by (simp add: strip_def isspace_def)

lemma superscript_two: "isdigit_cp 178" "decimal 178 = None"
  by (simp_all add: isdigit_cp_def decimal_def decimal_runs_def other_digits_def)

text \<open>
  Claim C6: \<^verbatim>\<open>makePhone(s)\<close> succeeds if and only if \<open>s\<close>, trimmed, is exactly ten
  characters long and every character is a decimal digit. The code tests the characters
  with \<^verbatim>\<open>str.isdigit\<close>, which also holds of digits that are not decimal: the string
  of the digits 1 to 9 followed by SUPERSCRIPT TWO (U+00B2), ten characters of which the
  last is no decimal digit, is accepted and stored.
\<close>

theorem Phone_accepts_superscript_two:
  "Phone [49, 50, 51, 52, 53, 54, 55, 56, 57, 178] = Inr [49, 50, 51, 52, 53, 54, 55, 56, 57, 178]
   \<and> decimal 178 = None"
  by (simp add: Phone_Inr_iff strip_nine_digits_superscript superscript_two ascii_isdigit_cp)

section \<open>Properties of the records\<close>

lemma add_phone_distinct:
  "distinct (phones r) \<Longrightarrow> add_phone r s = Inr r' \<Longrightarrow> distinct (phones r')"
  by (auto simp: add_phone_def list_ex_iff split: sum.splits if_splits)

lemma add_phone_present:
  "Phone s = Inr p \<Longrightarrow> p \<in> set (phones r) \<Longrightarrow> add_phone r s = Inr r"
  by (simp add: add_phone_def list_ex_iff)

lemma add_phone_absent:
  "Phone s = Inr p \<Longrightarrow> p \<notin> set (phones r) \<Longrightarrow> add_phone r s = Inr (r\<lparr>phones := phones r @ [p]\<rparr>)"
  by (simp add: add_phone_def list_ex_iff)

lemma remove_first_set: "remove_first c xs = Some ys \<Longrightarrow> set ys \<subseteq> set xs"
  by (induction xs arbitrary: ys) (auto split: if_splits option.splits)

lemma remove_first_distinct: "distinct xs \<Longrightarrow> remove_first c xs = Some ys \<Longrightarrow> distinct ys"
proof (induction xs arbitrary: ys)
  case Nil
  then show ?case by simp
next
  case (Cons x xs)
  show ?case
  proof (cases "x = c")
    case True
    with Cons.prems show ?thesis by simp
  next
    case False
    with Cons.prems obtain zs where zs: "remove_first c xs = Some zs" "ys = x # zs"
      by (auto split: option.splits)
    with Cons show ?thesis using remove_first_set [OF zs(1)] by auto
  qed
qed

lemma remove_phone_distinct:
  "distinct (phones r) \<Longrightarrow> remove_phone r s = Inr r' \<Longrightarrow> distinct (phones r')"
  by (auto simp: remove_phone_def split: sum.splits option.splits dest: remove_first_distinct)

lemma replace_first_None: "(replace_first old new xs = None) = (old \<notin> set xs)"
  by (induction xs) (auto split: option.splits)

lemma replace_first_Some:
  "old \<in> set xs \<Longrightarrow>
   replace_first old new xs = Some (xs[length (takeWhile (\<lambda>ph. ph \<noteq> old) xs) := new])"
  by (induction xs) (auto split: option.splits simp: replace_first_None)

lemma ascii_ones: "ascii ''1111111111'' = [49, 49, 49, 49, 49, 49, 49, 49, 49, 49]"
  by (simp add: ascii_def)

lemma ascii_twos: "ascii ''2222222222'' = [50, 50, 50, 50, 50, 50, 50, 50, 50, 50]"
  by (simp add: ascii_def)

lemma ascii_abc: "ascii ''abc'' = [97, 98, 99]"
  by (simp add: ascii_def)

lemma Phone_ones: "Phone (ascii ''1111111111'') = Inr (ascii ''1111111111'')"
  by (simp add: ascii_ones Phone_Inr_iff strip_def isspace_def ascii_isdigit_cp)

lemma Phone_twos: "Phone (ascii ''2222222222'') = Inr (ascii ''2222222222'')"
  by (simp add: ascii_twos Phone_Inr_iff strip_def isspace_def ascii_isdigit_cp)

lemma Phone_abc: "Phone (ascii ''abc'') = Inl (ValueError PhoneTenDigits)"
  by (simp add: ascii_abc Phone_def strip_def isspace_def)

lemma ones_neq_twos: "ascii ''1111111111'' \<noteq> ascii ''2222222222''"
  by (simp add: ascii_ones ascii_twos)

lemma ascii_Ann: "ascii ''Ann'' = [65, 110, 110]"
  by (simp add: ascii_def)

lemma ascii_ann: "ascii ''ann'' = [97, 110, 110]"
  by (simp add: ascii_def)

lemma key_Ann: "key cf (ascii ''Ann'') = ascii ''ann''"
  by (simp add: key_def casefold_def casefold_cp_def ascii_Ann ascii_ann)

lemma key_ann: "key cf (ascii ''ann'') = ascii ''ann''"
  by (simp add: key_def casefold_def casefold_cp_def ascii_ann)

text \<open>
  Claim C4: every operation of a record (\<^verbatim>\<open>add_phone\<close>, \<^verbatim>\<open>remove_phone\<close>,
  \<^verbatim>\<open>edit_phone\<close>) keeps the phones of the record free of duplicates, and
  \<^verbatim>\<open>add_phone\<close> of a value that is there changes nothing and otherwise appends.
  \<^verbatim>\<open>add_phone\<close> and \<^verbatim>\<open>remove_phone\<close> do (\<open>add_phone_distinct\<close>,
  \<open>add_phone_present\<close>, \<open>add_phone_absent\<close>, \<open>remove_phone_distinct\<close>).
  \<^verbatim>\<open>edit_phone\<close> does not look for the new value among the phones, as
  \<^verbatim>\<open>add_phone\<close> does: on a record with the two phones 1111111111 and 2222222222,
  changing the first into the second leaves 2222222222 twice.
\<close>

theorem edit_phone_makes_duplicate:
  "distinct (phones \<lparr>name = n, phones = [ascii ''1111111111'', ascii ''2222222222''], birthday = None\<rparr>)
   \<and> edit_phone \<lparr>name = n, phones = [ascii ''1111111111'', ascii ''2222222222''], birthday = None\<rparr>
        (ascii ''1111111111'') (ascii ''2222222222'')
     = Inr \<lparr>name = n, phones = [ascii ''2222222222'', ascii ''2222222222''], birthday = None\<rparr>"
  by (simp add: edit_phone_def Phone_ones Phone_twos ones_neq_twos)

text \<open>
  Claim C5: \<^verbatim>\<open>edit_phone\<close> fails with NotFound when the old value is absent,
  otherwise with a validation error when the new string is invalid, otherwise replaces
  the phone where it stands. The code validates both strings before it looks for the
  old value: with a valid old value that the record does not have and an invalid new
  string, the error is the validation error, not NotFound.
\<close>

theorem edit_phone_validates_first_counterexample:
  "Phone (ascii ''1111111111'') = Inr (ascii ''1111111111'')
   \<and> ascii ''1111111111'' \<notin> set (phones (new_Record (ascii ''Ann'')))
   \<and> edit_phone (new_Record (ascii ''Ann'')) (ascii ''1111111111'') (ascii ''abc'')
       = Inl (ValueError PhoneTenDigits)"
  by (simp add: edit_phone_def Phone_ones Phone_abc new_Record_def)

text \<open>
  Claim C5 as the code has it: \<^verbatim>\<open>edit_phone\<close> fails with the validation error when
  the old or the new string is invalid; otherwise with NotFound when the old value is
  not among the phones; otherwise the first phone equal to the old value is replaced by
  the new value where it stands, the other phones and their order unchanged. When it
  fails, the record in the book is as before: the handler only reports the error.
\<close>

theorem edit_phone_cases:
  "(Phone old = Inl x \<or> Phone new = Inl x \<longrightarrow>
      edit_phone r old new = Inl (ValueError PhoneTenDigits))
   \<and> (Phone old = Inr p \<and> Phone new = Inr q \<and> p \<notin> set (phones r) \<longrightarrow>
      edit_phone r old new = Inl (ValueError OldPhoneNotFound))
   \<and> (Phone old = Inr p \<and> Phone new = Inr q \<and> p \<in> set (phones r) \<longrightarrow>
      edit_phone r old new =
        Inr (r\<lparr>phones := (phones r)[length (takeWhile (\<lambda>ph. ph \<noteq> p) (phones r)) := q]\<rparr>))
   \<and> (find_rec cf (book a) n = Some r \<and> edit_phone r old new = Inl y \<longrightarrow>
      handle_change cf e (n # old # new # rest) a = (None, emit (Error (ErrorText y)) a))"
proof (intro conjI impI)
  assume h: "find_rec cf (book a) n = Some r \<and> edit_phone r old new = Inl y"
  then have "y = ValueError PhoneTenDigits \<or> y = ValueError OldPhoneNotFound"
    by (auto simp: edit_phone_def split: sum.splits option.splits dest: Phone_Inl)
  with h show "handle_change cf e (n # old # new # rest) a = (None, emit (Error (ErrorText y)) a)"
    by (auto simp: handle_change_def input_error_def change_body_def report_of_def)
next
  assume "Phone old = Inl x \<or> Phone new = Inl x"
  then show "edit_phone r old new = Inl (ValueError PhoneTenDigits)"
    by (auto simp: edit_phone_def split: sum.splits dest: Phone_Inl)
next
  assume "Phone old = Inr p \<and> Phone new = Inr q \<and> p \<notin> set (phones r)"
  then show "edit_phone r old new = Inl (ValueError OldPhoneNotFound)"
    using replace_first_None [of p q "phones r"] by (simp add: edit_phone_def)
next
  assume "Phone old = Inr p \<and> Phone new = Inr q \<and> p \<in> set (phones r)"
  then show "edit_phone r old new =
      Inr (r\<lparr>phones := (phones r)[length (takeWhile (\<lambda>ph. ph \<noteq> p) (phones r)) := q]\<rparr>)"
    by (simp add: edit_phone_def replace_first_Some)
qed

theorem edit_phone_cases_witness:
  "Phone (ascii ''abc'') = Inl (ValueError PhoneTenDigits)
   \<and> edit_phone (new_Record (ascii ''Ann'')) (ascii ''abc'') (ascii ''1111111111'')
       = Inl (ValueError PhoneTenDigits)
   \<and> Phone (ascii ''1111111111'') = Inr (ascii ''1111111111'')
   \<and> Phone (ascii ''2222222222'') = Inr (ascii ''2222222222'')
   \<and> ascii ''1111111111'' \<notin> set (phones (new_Record (ascii ''Ann'')))
   \<and> edit_phone (new_Record (ascii ''Ann'')) (ascii ''1111111111'') (ascii ''2222222222'')
       = Inl (ValueError OldPhoneNotFound)
   \<and> ascii ''1111111111'' \<in> set (phones \<lparr>name = ascii ''Ann'', phones = [ascii ''2222222222'', ascii ''1111111111''], birthday = None\<rparr>)
   \<and> edit_phone \<lparr>name = ascii ''Ann'', phones = [ascii ''2222222222'', ascii ''1111111111''], birthday = None\<rparr>
        (ascii ''1111111111'') (ascii ''2222222222'')
       = Inr \<lparr>name = ascii ''Ann'', phones = [ascii ''2222222222'', ascii ''2222222222''], birthday = None\<rparr>
   \<and> find_rec (\<lambda>c. [c]) (book \<lparr>book = [(ascii ''ann'', new_Record (ascii ''Ann''))], trace = []\<rparr>)
        (ascii ''Ann'') = Some (new_Record (ascii ''Ann''))
   \<and> handle_change (\<lambda>c. [c]) \<lparr>clock = \<lparr>year = 2024, month = 1, day = 1\<rparr>, writable = True\<rparr>
        [ascii ''Ann'', ascii ''1111111111'', ascii ''2222222222'']
        \<lparr>book = [(ascii ''ann'', new_Record (ascii ''Ann''))], trace = []\<rparr>
       = (None, \<lparr>book = [(ascii ''ann'', new_Record (ascii ''Ann''))],
                  trace = [Error (ErrorText (ValueError OldPhoneNotFound))]\<rparr>)"
proof -
  let ?ann = "new_Record (ascii ''Ann'')"
  let ?two = "\<lparr>name = ascii ''Ann'', phones = [ascii ''2222222222'', ascii ''1111111111''],
               birthday = None\<rparr>"
  let ?a = "\<lparr>book = [(ascii ''ann'', ?ann)], trace = []\<rparr>"
  let ?e = "\<lparr>clock = \<lparr>year = 2024, month = 1, day = 1\<rparr>, writable = True\<rparr>"
  have found: "find_rec (\<lambda>c. [c]) (book ?a) (ascii ''Ann'') = Some ?ann"
    by (simp add: find_rec_def key_Ann dict_get_def ascii_ann)
  note first = edit_phone_cases [of "ascii ''abc''" "ValueError PhoneTenDigits"
      "ascii ''1111111111''" ?ann "ascii ''1111111111''" "ascii ''1111111111''"]
  note second = edit_phone_cases [of "ascii ''1111111111''" x "ascii ''2222222222''"
      ?ann "ascii ''1111111111''" "ascii ''2222222222''" "\<lambda>c. [c]" ?a "ascii ''Ann''"
      "ValueError OldPhoneNotFound" ?e "[]"]
  note third = edit_phone_cases [of "ascii ''1111111111''" x "ascii ''2222222222''"
      ?two "ascii ''1111111111''" "ascii ''2222222222''"]
  show ?thesis
    using first second third found
    by (simp add: Phone_ones Phone_twos Phone_abc new_Record_def ones_neq_twos
        ones_neq_twos [symmetric] emit_def)
qed

section \<open>Properties of the address book\<close>

lemma dict_get_set_same: "dict_get (dict_set b k v) k = Some v"
  by (induction b) (auto simp: dict_get_def)

lemma dict_get_set_other: "k' \<noteq> k \<Longrightarrow> dict_get (dict_set b k v) k' = dict_get b k'"
  by (induction b) (auto simp: dict_get_def)

lemma keys_dict_set:
  "map fst (dict_set b k v) = (if k \<in> fst ` set b then map fst b else map fst b @ [k])"
proof (induction b)
  case Nil
  then show ?case by simp
next
  case (Cons kv b)
  obtain k' v' where kv: "kv = (k', v')" by (cases kv)
  show ?case
  proof (cases "k' = k")
    case True
    then show ?thesis by (simp add: kv)
  next
    case False
    with Cons.IH show ?thesis by (simp add: kv)
  qed
qed

lemma wf_dict_set: "wf_book b \<Longrightarrow> wf_book (dict_set b k v)"
  by (auto simp: wf_book_def keys_dict_set)

lemma wf_dict_del: "wf_book b \<Longrightarrow> wf_book (dict_del b k)"
  by (simp add: wf_book_def dict_del_def distinct_map_filter)

lemma dict_get_None: "(dict_get b k = None) = (k \<notin> fst ` set b)"
  by (simp add: dict_get_def map_of_eq_None_iff)

lemma wf_book_one: "wf_book b \<Longrightarrow> length (filter (\<lambda>kv. fst kv = k) b) \<le> 1"
proof (induction b)
  case Nil
  then show ?case by simp
next
  case (Cons kv b)
  then have "fst kv \<notin> fst ` set b" and "wf_book b"
    by (auto simp: wf_book_def)
  then have "fst kv = k \<Longrightarrow> filter (\<lambda>kv. fst kv = k) b = []"
    unfolding filter_empty_conv by (metis imageI)
  with Cons.IH [OF \<open>wf_book b\<close>] show ?case by auto
qed

section \<open>Properties of the handlers\<close>

text \<open>
  Claim C10: for a name that is not in the book and a phone string that is not valid,
  \<^verbatim>\<open>add\<close> stores a new record with the name, no phones and no birthday before
  \<^verbatim>\<open>add_phone\<close> raises. The handler reports the validation error and returns: the
  record stays in the book, and nothing is saved (the trace gains the error report
  alone).
\<close>

theorem add_with_invalid_phone_keeps_new_contact:
  assumes "find_rec cf (book a) n = None" and "Phone phone = Inl x"
  shows "handle_add cf e (n # phone # rest) a =
           (None, a\<lparr>book := add_record cf (book a) (new_Record n),
                     trace := trace a @ [Error (ErrorText (ValueError PhoneTenDigits))]\<rparr>)
       \<and> find_rec cf (add_record cf (book a) (new_Record n)) n
           = Some \<lparr>name = n, phones = [], birthday = None\<rparr>"
proof -
  have x: "x = ValueError PhoneTenDigits"
    using assms(2) by (rule Phone_Inl)
  have "add_phone (new_Record n) phone = Inl (ValueError PhoneTenDigits)"
    using assms(2) x by (simp add: add_phone_def)
  then have "handle_add cf e (n # phone # rest) a =
           (None, a\<lparr>book := add_record cf (book a) (new_Record n),
                     trace := trace a @ [Error (ErrorText (ValueError PhoneTenDigits))]\<rparr>)"
    using assms(1) by (simp add: handle_add_def input_error_def add_body_def report_of_def emit_def)
  moreover have "find_rec cf (add_record cf (book a) (new_Record n)) n
           = Some \<lparr>name = n, phones = [], birthday = None\<rparr>"
    by (simp add: find_rec_def add_record_def new_Record_def dict_get_set_same)
  ultimately show ?thesis by simp
qed

theorem add_with_invalid_phone_keeps_new_contact_witness:
  "find_rec (\<lambda>c. [c]) (book \<lparr>book = [], trace = []\<rparr>) (ascii ''Ann'') = None
   \<and> Phone (ascii ''abc'') = Inl (ValueError PhoneTenDigits)
   \<and> handle_add (\<lambda>c. [c]) \<lparr>clock = \<lparr>year = 2024, month = 1, day = 1\<rparr>, writable = True\<rparr>
        [ascii ''Ann'', ascii ''abc''] \<lparr>book = [], trace = []\<rparr>
       = (None, \<lparr>book = [(ascii ''ann'', \<lparr>name = ascii ''Ann'', phones = [], birthday = None\<rparr>)],
                  trace = [Error (ErrorText (ValueError PhoneTenDigits))]\<rparr>)"
  using add_with_invalid_phone_keeps_new_contact [of "\<lambda>c. [c]" "\<lparr>book = [], trace = []\<rparr>"
      "ascii ''Ann''" "ascii ''abc''" "ValueError PhoneTenDigits"
      "\<lparr>clock = \<lparr>year = 2024, month = 1, day = 1\<rparr>, writable = True\<rparr>" "[]"]
  by (simp add: find_rec_def dict_get_def Phone_abc add_record_def new_Record_def key_Ann)


lemma ascii_0301: "ascii ''03.01.1990'' = [48, 51, 46, 48, 49, 46, 49, 57, 57, 48]"
  by (simp add: ascii_def)

lemma ascii_0402: "ascii ''04.02.1991'' = [48, 52, 46, 48, 50, 46, 49, 57, 57, 49]"
  by (simp add: ascii_def)

lemmas calendar_eval = make_date_def days_in_month_def DAYS_IN_MONTH_def is_leap_def

lemmas regex_eval =
  strptime_def re_matches_def re_day_def re_dot_def re_month_def re_year_def digit_in_def
  decimal_def py_int_def strip_def isspace_def

lemmas strptime_eval = regex_eval calendar_eval

lemmas strftime_eval = strftime_def fmt2_def fmt4_def fmt_year_def

lemma Birthday_0301: "Birthday (ascii ''03.01.1990'') = Inr (ascii ''03.01.1990'')"
proof -
  have "strip (ascii ''03.01.1990'') = ascii ''03.01.1990''"
    by (simp add: ascii_0301 strip_def isspace_def)
  moreover have "strptime (ascii ''03.01.1990'') = Inr \<lparr>year = 1990, month = 1, day = 3\<rparr>"
    unfolding ascii_0301 by (simp add: strptime_eval)
  moreover have "strftime \<lparr>year = 1990, month = 1, day = 3\<rparr> = ascii ''03.01.1990''"
    by (simp add: strftime_eval ascii_0301)
  ultimately show ?thesis by (simp add: Birthday_def)
qed

text \<open>
  Claim C7: once a record has a birthday, every further \<^verbatim>\<open>add_birthday\<close> on it
  fails with the error that the birthday is already set, whatever the string, and the
  birthday stays as it was: \<^verbatim>\<open>add_birthday\<close> raises before it assigns, and the
  handler leaves the book unchanged and reports the error. A successful
  \<^verbatim>\<open>add_birthday\<close> leaves the record with a birthday.
\<close>

theorem add_birthday_only_once:
  "(add_birthday r0 first = Inr r \<longrightarrow> birthday r \<noteq> None)
   \<and> (birthday r = Some b \<longrightarrow>
        add_birthday r raw = Inl (ValueError BirthdayAlreadySet)
        \<and> (find_rec cf (book a) n = Some r \<longrightarrow>
             handle_add_birthday cf e (n # raw # rest) a
               = (None, a\<lparr>trace := trace a @ [Error (ErrorText (ValueError BirthdayAlreadySet))]\<rparr>)))"
  by (auto simp: add_birthday_def handle_add_birthday_def input_error_def add_birthday_body_def
      report_of_def emit_def split: sum.splits if_splits)

theorem add_birthday_only_once_witness:
  "add_birthday (new_Record (ascii ''Ann'')) (ascii ''03.01.1990'')
     = Inr \<lparr>name = ascii ''Ann'', phones = [], birthday = Some (ascii ''03.01.1990'')\<rparr>
   \<and> add_birthday \<lparr>name = ascii ''Ann'', phones = [], birthday = Some (ascii ''03.01.1990'')\<rparr>
        (ascii ''04.02.1991'') = Inl (ValueError BirthdayAlreadySet)
   \<and> find_rec (\<lambda>c. [c])
        (book \<lparr>book = [(ascii ''ann'', \<lparr>name = ascii ''Ann'', phones = [],
                                          birthday = Some (ascii ''03.01.1990'')\<rparr>)], trace = []\<rparr>)
        (ascii ''Ann'')
       = Some \<lparr>name = ascii ''Ann'', phones = [], birthday = Some (ascii ''03.01.1990'')\<rparr>
   \<and> handle_add_birthday (\<lambda>c. [c]) \<lparr>clock = \<lparr>year = 2024, month = 1, day = 1\<rparr>, writable = True\<rparr>
        [ascii ''Ann'', ascii ''04.02.1991'']
        \<lparr>book = [(ascii ''ann'', \<lparr>name = ascii ''Ann'', phones = [],
                                    birthday = Some (ascii ''03.01.1990'')\<rparr>)], trace = []\<rparr>
       = (None, \<lparr>book = [(ascii ''ann'', \<lparr>name = ascii ''Ann'', phones = [],
                                    birthday = Some (ascii ''03.01.1990'')\<rparr>)],
                  trace = [Error (ErrorText (ValueError BirthdayAlreadySet))]\<rparr>)"
proof -
  let ?r = "\<lparr>name = ascii ''Ann'', phones = [], birthday = Some (ascii ''03.01.1990'')\<rparr>"
  let ?a = "\<lparr>book = [(ascii ''ann'', ?r)], trace = []\<rparr>"
  have first: "add_birthday (new_Record (ascii ''Ann'')) (ascii ''03.01.1990'') = Inr ?r"
    by (simp add: add_birthday_def new_Record_def Birthday_0301)
  have found: "find_rec (\<lambda>c. [c]) (book ?a) (ascii ''Ann'') = Some ?r"
    by (simp add: find_rec_def key_Ann dict_get_def)
  show ?thesis
    using first found
      add_birthday_only_once [of "new_Record (ascii ''Ann'')" "ascii ''03.01.1990''" ?r
        "ascii ''03.01.1990''" "ascii ''04.02.1991''" "\<lambda>c. [c]" ?a "ascii ''Ann''"
        "\<lparr>clock = \<lparr>year = 2024, month = 1, day = 1\<rparr>, writable = True\<rparr>" "[]"]
    by simp
qed

lemma loop_body_commands:
  "loop_body cf e (ascii ''hello'') args a = (Continue, emit (Message HowCanIHelp) a)"
  "loop_body cf e (ascii ''help'') args a = after (handle_help a)"
  "loop_body cf e (ascii ''add'') args a = after (handle_add cf e args a)"
  "loop_body cf e (ascii ''change'') args a = after (handle_change cf e args a)"
  "loop_body cf e (ascii ''remove-phone'') args a = after (handle_remove_phone cf e args a)"
  "loop_body cf e (ascii ''delete'') args a = after (handle_delete cf e args a)"
  "loop_body cf e (ascii ''phone'') args a = after (handle_phone cf args a)"
  "loop_body cf e (ascii ''all'') args a = after (handle_all a)"
  "loop_body cf e (ascii ''add-birthday'') args a = after (handle_add_birthday cf e args a)"
  "loop_body cf e (ascii ''show-birthday'') args a = after (handle_show_birthday cf args a)"
  "loop_body cf e (ascii ''birthdays'') args a = after (handle_birthdays e a)"
  by (simp_all add: loop_body_def ascii_def)

lemma save_and_tell_cases:
  "save_and_tell e msg a =
     (if writable e then (None, a\<lparr>trace := trace a @ [Saved (book a), Message msg]\<rparr>)
      else (Some OSError, a))"
  by (simp add: save_and_tell_def autosave_def save_data_def emit_def)







lemma after_Continue: "after (None, a) = (Continue, a)"
  by (simp add: after_def)

lemma after_state: "after p = (fl, a') \<Longrightarrow> \<exists>r. p = (r, a')"
  by (auto simp: after_def split: prod.splits option.splits)

lemma get_upcoming_birthdays_book: "snd (get_upcoming_birthdays b days t) = b"
  by (simp add: get_upcoming_birthdays_def split: sum.splits)

lemma read_only_shape:
  "handle_phone cf args a = (r, a') \<or> handle_all a = (r, a') \<or>
   handle_show_birthday cf args a = (r, a') \<or> handle_birthdays e a = (r, a') \<or>
   handle_help a = (r, a') \<Longrightarrow>
   book a' = book a \<and> (\<exists>evs. trace a' = trace a @ evs \<and> (\<forall>b. Saved b \<notin> set evs))"
proof (elim disjE)
  assume "handle_phone cf args a = (r, a')"
  then show ?thesis
    by (auto simp: handle_phone_def input_error_def phone_body_def show_contact_def emit_def
        split: list.splits option.splits)
next
  assume "handle_all a = (r, a')"
  then show ?thesis by (auto simp: handle_all_def emit_def)
next
  assume "handle_show_birthday cf args a = (r, a')"
  then show ?thesis
    by (auto simp: handle_show_birthday_def input_error_def show_birthday_body_def emit_def
        split: list.splits option.splits)
next
  assume h: "handle_birthdays e a = (r, a')"
  obtain res b' where g: "get_upcoming_birthdays (book a) 7 (clock e) = (res, b')"
    by (cases "get_upcoming_birthdays (book a) 7 (clock e)")
  with get_upcoming_birthdays_book [of "book a" 7 "clock e"] have "b' = book a" by simp
  with h g show ?thesis
    by (cases res) (auto simp: handle_birthdays_def emit_def)
next
  assume "handle_help a = (r, a')"
  then show ?thesis by (auto simp: handle_help_def emit_def)
qed

lemma input_error_catches: "fst (input_error func a) = None"
  by (simp add: input_error_def split: prod.splits option.splits)

lemma ascii_Bob: "ascii ''Bob'' = [66, 111, 98]"
  by (simp add: ascii_def)

lemma ascii_bob: "ascii ''bob'' = [98, 111, 98]"
  by (simp add: ascii_def)

lemma key_Bob: "key cf (ascii ''Bob'') = ascii ''bob''"
  by (simp add: key_def casefold_def casefold_cp_def ascii_Bob ascii_bob)

lemma ascii_phone0: "ascii ''1234567890'' = [49, 50, 51, 52, 53, 54, 55, 56, 57, 48]"
  by (simp add: ascii_def)

lemma Phone_phone0: "Phone (ascii ''1234567890'') = Inr (ascii ''1234567890'')"
  by (simp add: ascii_phone0 Phone_Inr_iff strip_def isspace_def ascii_isdigit_cp)

lemma ascii_2902: "ascii ''29.02.2024'' = [50, 57, 46, 48, 50, 46, 50, 48, 50, 52]"
  by (simp add: ascii_def)

lemma strptime_2902: "strptime (ascii ''29.02.2024'') = Inr \<lparr>year = 2024, month = 2, day = 29\<rparr>"
  unfolding ascii_2902 by (simp add: strptime_eval)

lemma Birthday_2902: "Birthday (ascii ''29.02.2024'') = Inr (ascii ''29.02.2024'')"
proof -
  have "strip (ascii ''29.02.2024'') = ascii ''29.02.2024''"
    by (simp add: ascii_2902 strip_def isspace_def)
  moreover have "strftime \<lparr>year = 2024, month = 2, day = 29\<rparr> = ascii ''29.02.2024''"
    by (simp add: strftime_eval ascii_2902)
  ultimately show ?thesis by (simp add: Birthday_def strptime_2902)
qed

lemmas date_eval =
  date_add_def toordinal_def days_before_year_def days_before_month_def DAYS_BEFORE_MONTH_def
  calendar_eval
  MAXORDINAL_def ord2ymd_def month_day_def Let_def weekday_def date_lt_def date_le_def date_tuple_def
  replace_year_def shift_if_weekend_def

lemma end_date_2025: "date_add \<lparr>year = 2025, month = 11, day = 3\<rparr> 6 = Inr \<lparr>year = 2025, month = 11, day = 9\<rparr>"
  by (simp add: date_eval)

lemma greeting_2902_2025:
  "greeting \<lparr>year = 2025, month = 11, day = 3\<rparr> (ascii ''29.02.2024'') = Inl (ValueError DayOutOfRange)"
  by (simp add: greeting_def strptime_2902 date_eval)














text \<open>
  Claim C3: no exception leaves the execution of a command; every error raised in a
  handler becomes one error report, and the loop goes on until exit or close.
  The decorated handlers do catch everything (\<open>input_error_catches\<close>), but
  \<^verbatim>\<open>handle_birthdays\<close> is not decorated, and \<^verbatim>\<open>get_upcoming_birthdays\<close> raises
  \<^verbatim>\<open>ValueError\<close> when it moves a birthday of 29 February into a year that is not a
  leap year. After \<^verbatim>\<open>add Bob 1234567890\<close> and \<^verbatim>\<open>add-birthday Bob 29.02.2024\<close>,
  the command \<^verbatim>\<open>birthdays\<close> on a day of 2025 leaves the loop with that exception,
  and nothing is reported.
\<close>

theorem birthdays_command_raises:
  "loop_body cf \<lparr>clock = \<lparr>year = 2024, month = 3, day = 1\<rparr>, writable = True\<rparr> (ascii ''add'')
       [ascii ''Bob'', ascii ''1234567890''] \<lparr>book = [], trace = []\<rparr>
     = (Continue,
        \<lparr>book = [(ascii ''bob'', \<lparr>name = ascii ''Bob'', phones = [ascii ''1234567890''], birthday = None\<rparr>)],
         trace = [Saved [(ascii ''bob'', \<lparr>name = ascii ''Bob'', phones = [ascii ''1234567890''],
                                          birthday = None\<rparr>)],
                  Message ContactAdded]\<rparr>)
   \<and> loop_body cf \<lparr>clock = \<lparr>year = 2024, month = 3, day = 1\<rparr>, writable = True\<rparr> (ascii ''add-birthday'')
       [ascii ''Bob'', ascii ''29.02.2024'']
       \<lparr>book = [(ascii ''bob'', \<lparr>name = ascii ''Bob'', phones = [ascii ''1234567890''], birthday = None\<rparr>)],
        trace = []\<rparr>
     = (Continue,
        \<lparr>book = [(ascii ''bob'', \<lparr>name = ascii ''Bob'', phones = [ascii ''1234567890''],
                                   birthday = Some (ascii ''29.02.2024'')\<rparr>)],
         trace = [Saved [(ascii ''bob'', \<lparr>name = ascii ''Bob'', phones = [ascii ''1234567890''],
                                          birthday = Some (ascii ''29.02.2024'')\<rparr>)],
                  Message BirthdayAdded]\<rparr>)
   \<and> loop_body cf \<lparr>clock = \<lparr>year = 2025, month = 11, day = 3\<rparr>, writable = True\<rparr> (ascii ''birthdays'') []
       \<lparr>book = [(ascii ''bob'', \<lparr>name = ascii ''Bob'', phones = [ascii ''1234567890''],
                                  birthday = Some (ascii ''29.02.2024'')\<rparr>)],
        trace = []\<rparr>
     = (Raise (ValueError DayOutOfRange),
        \<lparr>book = [(ascii ''bob'', \<lparr>name = ascii ''Bob'', phones = [ascii ''1234567890''],
                                   birthday = Some (ascii ''29.02.2024'')\<rparr>)],
         trace = []\<rparr>)"
proof (intro conjI)
  show "loop_body cf \<lparr>clock = \<lparr>year = 2024, month = 3, day = 1\<rparr>, writable = True\<rparr> (ascii ''add'')
       [ascii ''Bob'', ascii ''1234567890''] \<lparr>book = [], trace = []\<rparr>
     = (Continue,
        \<lparr>book = [(ascii ''bob'', \<lparr>name = ascii ''Bob'', phones = [ascii ''1234567890''], birthday = None\<rparr>)],
         trace = [Saved [(ascii ''bob'', \<lparr>name = ascii ''Bob'', phones = [ascii ''1234567890''],
                                          birthday = None\<rparr>)],
                  Message ContactAdded]\<rparr>)"
    by (simp add: loop_body_commands handle_add_def input_error_def add_body_def find_rec_def
        key_Bob dict_get_def add_record_def new_Record_def add_phone_def Phone_phone0
        save_and_tell_cases in_place_def after_def)
  show "loop_body cf \<lparr>clock = \<lparr>year = 2024, month = 3, day = 1\<rparr>, writable = True\<rparr> (ascii ''add-birthday'')
       [ascii ''Bob'', ascii ''29.02.2024'']
       \<lparr>book = [(ascii ''bob'', \<lparr>name = ascii ''Bob'', phones = [ascii ''1234567890''], birthday = None\<rparr>)],
        trace = []\<rparr>
     = (Continue,
        \<lparr>book = [(ascii ''bob'', \<lparr>name = ascii ''Bob'', phones = [ascii ''1234567890''],
                                   birthday = Some (ascii ''29.02.2024'')\<rparr>)],
         trace = [Saved [(ascii ''bob'', \<lparr>name = ascii ''Bob'', phones = [ascii ''1234567890''],
                                          birthday = Some (ascii ''29.02.2024'')\<rparr>)],
                  Message BirthdayAdded]\<rparr>)"
    by (simp add: loop_body_commands handle_add_birthday_def input_error_def add_birthday_body_def
        find_rec_def key_Bob dict_get_def add_birthday_def Birthday_2902
        save_and_tell_cases in_place_def after_def)
  show "loop_body cf \<lparr>clock = \<lparr>year = 2025, month = 11, day = 3\<rparr>, writable = True\<rparr> (ascii ''birthdays'') []
       \<lparr>book = [(ascii ''bob'', \<lparr>name = ascii ''Bob'', phones = [ascii ''1234567890''],
                                  birthday = Some (ascii ''29.02.2024'')\<rparr>)],
        trace = []\<rparr>
     = (Raise (ValueError DayOutOfRange),
        \<lparr>book = [(ascii ''bob'', \<lparr>name = ascii ''Bob'', phones = [ascii ''1234567890''],
                                   birthday = Some (ascii ''29.02.2024'')\<rparr>)],
         trace = []\<rparr>)"
    by (simp add: loop_body_commands handle_birthdays_def get_upcoming_birthdays_def
        end_date_2025 greeting_2902_2025 after_def)
qed

section \<open>The book holds one record for a name\<close>

lemma casefold_cp_ascii_lower: "casefold_cp cf (ascii_lower c) = casefold_cp cf c"
  by (simp add: casefold_cp_def ascii_lower_def)

lemma casefold_ascii_lower: "casefold cf (map ascii_lower s) = casefold cf s"
  by (simp add: casefold_def o_def casefold_cp_ascii_lower)

lemma key_ascii_case:
  assumes "map ascii_lower n = map ascii_lower n'"
  shows "key cf n = key cf n'"
proof -
  have "key cf n = casefold cf (map ascii_lower n)"
    by (simp add: key_def casefold_ascii_lower)
  also have "\<dots> = casefold cf (map ascii_lower n')"
    by (simp only: assms)
  also have "\<dots> = key cf n'"
    by (simp add: key_def casefold_ascii_lower)
  finally show ?thesis .
qed

lemma dict_set_exact:
  assumes "wf_book b"
  shows "dict_set b k v =
           (if k \<in> fst ` set b then map (\<lambda>kv. if fst kv = k then (k, v) else kv) b
            else b @ [(k, v)])"
  using assms
proof (induction b)
  case Nil
  then show ?case by simp
next
  case (Cons kv b)
  obtain k' v' where kv: "kv = (k', v')" by (cases kv)
  from Cons.prems have wf: "wf_book b" and fresh: "k' \<notin> fst ` set b"
    by (simp_all add: wf_book_def kv)
  show ?case
  proof (cases "k' = k")
    case True
    with fresh have "map (\<lambda>kv. if fst kv = k then (k, v) else kv) b = b"
      by (intro map_idI) auto
    with True show ?thesis by (simp add: kv)
  next
    case False
    with Cons.IH [OF wf] show ?thesis by (simp add: kv)
  qed
qed

lemma keyed_dict_set: "keyed cf b \<Longrightarrow> k = key cf (name v) \<Longrightarrow> keyed cf (dict_set b k v)"
  by (induction b) (auto simp: keyed_def)

lemma keyed_dict_del: "keyed cf b \<Longrightarrow> keyed cf (dict_del b k)"
  by (simp add: keyed_def dict_del_def list_all_iff)

lemma dict_del_keys: "k \<notin> fst ` set (dict_del b k)"
  by (auto simp: dict_del_def)

lemma book_inv_dict_set:
  "book_inv cf b \<Longrightarrow> k = key cf (name v) \<Longrightarrow> book_inv cf (dict_set b k v)"
  by (simp add: book_inv_def wf_dict_set keyed_dict_set)

lemma book_inv_dict_del: "book_inv cf b \<Longrightarrow> book_inv cf (dict_del b k)"
  by (simp add: book_inv_def wf_dict_del keyed_dict_del)

lemma book_inv_add_record: "book_inv cf b \<Longrightarrow> book_inv cf (add_record cf b r)"
  by (simp add: add_record_def book_inv_dict_set)

lemma dict_get_del_same: "dict_get (dict_del b k) k = None"
  unfolding dict_get_None by (rule dict_del_keys)

lemma find_rec_member: "find_rec cf b n = Some r \<Longrightarrow> (key cf n, r) \<in> set b"
  by (simp add: find_rec_def dict_get_def map_of_SomeD)

lemma find_rec_key:
  assumes "book_inv cf b" "find_rec cf b n = Some r"
  shows "key cf n = key cf (name r)"
  using find_rec_member [OF assms(2)] assms(1)
  by (auto simp: book_inv_def keyed_def list_all_iff)

lemma book_inv_unique:
  assumes "book_inv cf b" "(k1, r1) \<in> set b" "(k2, r2) \<in> set b"
    "key cf (name r1) = key cf (name r2)"
  shows "k1 = k2 \<and> r1 = r2"
proof -
  from assms(1-3) have "k1 = key cf (name r1)" "k2 = key cf (name r2)"
    by (auto simp: book_inv_def keyed_def list_all_iff)
  with assms(4) have k: "k1 = k2" by simp
  from assms(1) have "distinct (map fst b)" by (simp add: book_inv_def wf_book_def)
  with assms(2,3) k have "r1 = r2" by (auto dest: eq_key_imp_eq_value)
  with k show ?thesis by simp
qed

text \<open>The methods of a record keep its name.\<close>

lemma add_phone_name: "add_phone r p = Inr r' \<Longrightarrow> name r' = name r"
  by (auto simp: add_phone_def split: sum.splits if_splits)

lemma remove_phone_name: "remove_phone r p = Inr r' \<Longrightarrow> name r' = name r"
  by (auto simp: remove_phone_def split: sum.splits option.splits)

lemma edit_phone_name: "edit_phone r p q = Inr r' \<Longrightarrow> name r' = name r"
  by (auto simp: edit_phone_def split: sum.splits option.splits)

lemma add_birthday_name: "add_birthday r d = Inr r' \<Longrightarrow> name r' = name r"
  by (auto simp: add_birthday_def split: sum.splits if_splits)

lemma book_inv_in_place:
  assumes "book_inv cf (book a)" "find_rec cf (book a) n = Some r" "name r' = name r"
  shows "book_inv cf (book (in_place cf n r' a))"
  using assms(1) find_rec_key [OF assms(1,2)] assms(3)
  by (simp add: in_place_def book_inv_dict_set)

lemma save_and_tell_book: "save_and_tell e msg a = (res, a') \<Longrightarrow> book a' = book a"
  by (auto simp: save_and_tell_cases split: if_splits)

lemma add_body_inv:
  assumes "book_inv cf (book a)" "add_body cf e args a = (res, a')"
  shows "book_inv cf (book a')"
proof (cases args)
  case Nil
  with assms show ?thesis by (simp add: add_body_def)
next
  case (Cons n args')
  show ?thesis
  proof (cases args')
    case Nil
    with Cons assms show ?thesis by (simp add: add_body_def)
  next
    case (Cons p rest)
    note args = \<open>args = n # args'\<close> Cons
    show ?thesis
    proof (cases "find_rec cf (book a) n")
      case None
      let ?a1 = "a\<lparr>book := add_record cf (book a) (new_Record n)\<rparr>"
      have inv1: "book_inv cf (book ?a1)"
        using assms(1) by (simp add: book_inv_add_record)
      have f1: "find_rec cf (book ?a1) n = Some (new_Record n)"
        by (simp add: find_rec_def add_record_def new_Record_def dict_get_set_same)
      show ?thesis
      proof (cases "add_phone (new_Record n) p")
        case (Inl x)
        with assms(2) args None inv1 show ?thesis by (auto simp: add_body_def)
      next
        case (Inr r')
        with assms(2) args None
        have "save_and_tell e ContactAdded (in_place cf n r' ?a1) = (res, a')"
          by (simp add: add_body_def)
        then have "book a' = book (in_place cf n r' ?a1)" by (rule save_and_tell_book)
        with book_inv_in_place [OF inv1 f1 add_phone_name [OF Inr]] show ?thesis by simp
      qed
    next
      case (Some r)
      show ?thesis
      proof (cases "add_phone r p")
        case (Inl x)
        with assms args Some show ?thesis by (auto simp: add_body_def)
      next
        case (Inr r')
        with assms(2) args Some
        have "save_and_tell e ContactUpdated (in_place cf n r' a) = (res, a')"
          by (simp add: add_body_def)
        then have "book a' = book (in_place cf n r' a)" by (rule save_and_tell_book)
        with book_inv_in_place [OF assms(1) Some add_phone_name [OF Inr]] show ?thesis by simp
      qed
    qed
  qed
qed

lemma method_body_inv:
  assumes inv: "book_inv cf (book a)"
    and found: "find_rec cf (book a) n = Some r"
    and nm: "\<And>r'. method r = Inr r' \<Longrightarrow> name r' = name r"
    and res: "(case method r of Inl x \<Rightarrow> (Some x, a)
               | Inr r' \<Rightarrow> save_and_tell e msg (in_place cf n r' a)) = (res, a')"
  shows "book_inv cf (book a')"
proof (cases "method r")
  case (Inl x)
  with res inv show ?thesis by simp
next
  case (Inr r')
  with res have "save_and_tell e msg (in_place cf n r' a) = (res, a')" by simp
  then have "book a' = book (in_place cf n r' a)" by (rule save_and_tell_book)
  with book_inv_in_place [OF inv found nm [OF Inr]] show ?thesis by simp
qed

lemma change_body_inv:
  assumes "book_inv cf (book a)" "change_body cf e args a = (res, a')"
  shows "book_inv cf (book a')"
proof (cases "\<exists>n p q rest r. args = n # p # q # rest \<and> find_rec cf (book a) n = Some r")
  case True
  then obtain n p q rest r where args: "args = n # p # q # rest"
    and found: "find_rec cf (book a) n = Some r" by blast
  show ?thesis
    using assms(2)
    by (intro method_body_inv [OF assms(1) found, of "\<lambda>r. edit_phone r p q" e PhoneChanged])
      (simp_all add: change_body_def args found edit_phone_name)
next
  case False
  with assms show ?thesis
    by (auto simp: change_body_def split: list.splits option.splits)
qed

lemma remove_phone_body_inv:
  assumes "book_inv cf (book a)" "remove_phone_body cf e args a = (res, a')"
  shows "book_inv cf (book a')"
proof (cases "\<exists>n p rest r. args = n # p # rest \<and> find_rec cf (book a) n = Some r")
  case True
  then obtain n p rest r where args: "args = n # p # rest"
    and found: "find_rec cf (book a) n = Some r" by blast
  show ?thesis
    using assms(2)
    by (intro method_body_inv [OF assms(1) found, of "\<lambda>r. remove_phone r p" e PhoneRemoved])
      (simp_all add: remove_phone_body_def args found remove_phone_name)
next
  case False
  with assms show ?thesis
    by (auto simp: remove_phone_body_def split: list.splits option.splits)
qed

lemma add_birthday_body_inv:
  assumes "book_inv cf (book a)" "add_birthday_body cf e args a = (res, a')"
  shows "book_inv cf (book a')"
proof (cases "\<exists>n p rest r. args = n # p # rest \<and> find_rec cf (book a) n = Some r")
  case True
  then obtain n p rest r where args: "args = n # p # rest"
    and found: "find_rec cf (book a) n = Some r" by blast
  show ?thesis
    using assms(2)
    by (intro method_body_inv [OF assms(1) found, of "\<lambda>r. add_birthday r p" e BirthdayAdded])
      (simp_all add: add_birthday_body_def args found add_birthday_name)
next
  case False
  with assms show ?thesis
    by (auto simp: add_birthday_body_def split: list.splits option.splits)
qed

lemma delete_body_inv:
  assumes "book_inv cf (book a)" "delete_body cf e args a = (res, a')"
  shows "book_inv cf (book a')"
proof (cases args)
  case Nil
  with assms show ?thesis by (simp add: delete_body_def)
next
  case (Cons n rest)
  show ?thesis
  proof (cases "delete cf (book a) n")
    case (Inl x)
    with assms Cons show ?thesis by (simp add: delete_body_def)
  next
    case (Inr b')
    then have b': "b' = dict_del (book a) (key cf n)"
      by (auto simp: delete_def Let_def split: if_splits)
    from assms(2) Cons Inr have "save_and_tell e ContactDeleted (a\<lparr>book := b'\<rparr>) = (res, a')"
      by (simp add: delete_body_def)
    then have "book a' = b'" using save_and_tell_book by fastforce
    with assms(1) b' show ?thesis by (simp add: book_inv_dict_del)
  qed
qed

lemma input_error_book:
  assumes "input_error func a = (res, a')"
  obtains r a1 where "func a = (r, a1)" "book a' = book a1"
  using assms by (cases "func a") (auto simp: input_error_def emit_def split: option.splits)

lemma read_only_book:
  "phone_body cf args a = (res, a') \<Longrightarrow> book a' = book a"
  "show_birthday_body cf args a = (res, a') \<Longrightarrow> book a' = book a"
  by (auto simp: phone_body_def show_birthday_body_def show_contact_def emit_def
      split: list.splits option.splits)

lemma handlers_inv:
  assumes "book_inv cf (book a)"
  shows "handle_add cf e args a = (res, a') \<Longrightarrow> book_inv cf (book a')"
    and "handle_change cf e args a = (res, a') \<Longrightarrow> book_inv cf (book a')"
    and "handle_remove_phone cf e args a = (res, a') \<Longrightarrow> book_inv cf (book a')"
    and "handle_delete cf e args a = (res, a') \<Longrightarrow> book_inv cf (book a')"
    and "handle_add_birthday cf e args a = (res, a') \<Longrightarrow> book_inv cf (book a')"
    and "handle_phone cf args a = (res, a') \<Longrightarrow> book_inv cf (book a')"
    and "handle_show_birthday cf args a = (res, a') \<Longrightarrow> book_inv cf (book a')"
    and "handle_all a = (res, a') \<Longrightarrow> book_inv cf (book a')"
    and "handle_help a = (res, a') \<Longrightarrow> book_inv cf (book a')"
    and "handle_birthdays e a = (res, a') \<Longrightarrow> book_inv cf (book a')"
proof -
  show "book_inv cf (book a')" if "handle_add cf e args a = (res, a')"
    using that unfolding handle_add_def
    by (rule input_error_book) (use assms add_body_inv in fastforce)
  show "book_inv cf (book a')" if "handle_change cf e args a = (res, a')"
    using that unfolding handle_change_def
    by (rule input_error_book) (use assms change_body_inv in fastforce)
  show "book_inv cf (book a')" if "handle_remove_phone cf e args a = (res, a')"
    using that unfolding handle_remove_phone_def
    by (rule input_error_book) (use assms remove_phone_body_inv in fastforce)
  show "book_inv cf (book a')" if "handle_delete cf e args a = (res, a')"
    using that unfolding handle_delete_def
    by (rule input_error_book) (use assms delete_body_inv in fastforce)
  show "book_inv cf (book a')" if "handle_add_birthday cf e args a = (res, a')"
    using that unfolding handle_add_birthday_def
    by (rule input_error_book) (use assms add_birthday_body_inv in fastforce)
  show "book_inv cf (book a')" if "handle_phone cf args a = (res, a')"
    using that unfolding handle_phone_def
    by (rule input_error_book) (use assms read_only_book(1) in fastforce)
  show "book_inv cf (book a')" if "handle_show_birthday cf args a = (res, a')"
    using that unfolding handle_show_birthday_def
    by (rule input_error_book) (use assms read_only_book(2) in fastforce)
  show "book_inv cf (book a')" if "handle_all a = (res, a')"
    using that assms by (auto simp: handle_all_def emit_def)
  show "book_inv cf (book a')" if "handle_help a = (res, a')"
    using that assms by (auto simp: handle_help_def emit_def)
  show "book_inv cf (book a')" if "handle_birthdays e a = (res, a')"
    using read_only_shape [of cf args a res a' e] that assms by simp
qed

lemma loop_body_inv:
  assumes "book_inv cf (book a)" "loop_body cf e cmd args a = (fl, a')"
  shows "book_inv cf (book a')"
proof -
  note h = handlers_inv [OF assms(1)]
  from assms(2) consider "a' = a" | "a' = emit Goodbye a" | "a' = emit (Message HowCanIHelp) a"
    | "a' = emit (Message InvalidCommand) a"
    | res where "handle_help a = (res, a')"
    | res where "handle_add cf e args a = (res, a')"
    | res where "handle_change cf e args a = (res, a')"
    | res where "handle_remove_phone cf e args a = (res, a')"
    | res where "handle_delete cf e args a = (res, a')"
    | res where "handle_phone cf args a = (res, a')"
    | res where "handle_all a = (res, a')"
    | res where "handle_add_birthday cf e args a = (res, a')"
    | res where "handle_show_birthday cf args a = (res, a')"
    | res where "handle_birthdays e a = (res, a')"
    unfolding loop_body_def by (auto split: if_splits dest!: after_state)
  then show ?thesis
    using assms(1) h by cases (auto simp: emit_def)
qed

lemma book_inv_Nil: "book_inv cf []"
  by (simp add: book_inv_def wf_book_def keyed_def)

lemma book_inv_one:
  assumes "book_inv cf b"
  shows "length (filter (\<lambda>kv. key cf (name (snd kv)) = k) b) \<le> 1"
proof -
  from assms have "filter (\<lambda>kv. key cf (name (snd kv)) = k) b = filter (\<lambda>kv. fst kv = k) b"
    by (intro filter_cong) (auto simp: book_inv_def keyed_def list_all_iff)
  moreover from assms have "wf_book b" by (simp add: book_inv_def)
  ultimately show ?thesis using wf_book_one [of b k] by simp
qed

lemma book_inv_del_filter:
  assumes "book_inv cf b"
  shows "dict_del b k = filter (\<lambda>kv. key cf (name (snd kv)) \<noteq> k) b"
  unfolding dict_del_def using assms
  by (intro filter_cong) (auto simp: book_inv_def keyed_def list_all_iff)

lemma book_inv_absent:
  assumes "book_inv cf b" "\<forall>kv \<in> set b. key cf (name (snd kv)) \<noteq> key cf n"
  shows "find_rec cf b n = None"
proof -
  from assms have "key cf n \<notin> fst ` set b"
    by (auto simp: book_inv_def keyed_def list_all_iff)
  then show ?thesis by (simp add: find_rec_def dict_get_None)
qed

lemma run_loop_inv:
  "book_inv cf (book a) \<Longrightarrow> run_loop sp lo cf lines a = (res, a') \<Longrightarrow> book_inv cf (book a')"
proof (induction lines arbitrary: a)
  case Nil
  then show ?case by simp
next
  case (Cons el lines)
  obtain e line where el: "el = (e, line)" by (cases el)
  show ?case
  proof (cases "parse_input sp lo line")
    case (Inl x)
    with Cons.prems el show ?thesis by simp
  next
    case (Inr ca)
    obtain cmd args where ca: "ca = (cmd, args)" by (cases ca)
    obtain fl a1 where lb: "loop_body cf e cmd args a = (fl, a1)"
      by (cases "loop_body cf e cmd args a")
    have inv1: "book_inv cf (book a1)"
      using Cons.prems(1) lb by (rule loop_body_inv)
    show ?thesis
    proof (cases fl)
      case Continue
      with Cons.prems(2) el Inr ca lb have "run_loop sp lo cf lines a1 = (res, a')" by simp
      with inv1 show ?thesis by (rule Cons.IH)
    next
      case Break
      with Cons.prems(2) el Inr ca lb inv1 show ?thesis by simp
    next
      case (Raise x)
      with Cons.prems(2) el Inr ca lb inv1 show ?thesis by simp
    qed
  qed
qed

lemma run_inv:
  assumes "book_inv cf (book a)" "run sp lo cf lines e a = (res, a')"
  shows "book_inv cf (book a')"
proof -
  obtain r1 a1 where rl: "run_loop sp lo cf lines (emit LoadedNotice (emit Welcome a)) = (r1, a1)"
    by (cases "run_loop sp lo cf lines (emit LoadedNotice (emit Welcome a))")
  from assms(1) have "book_inv cf (book (emit LoadedNotice (emit Welcome a)))"
    by (simp add: emit_def)
  then have "book_inv cf (book a1)" using rl by (rule run_loop_inv)
  moreover from assms(2) rl have "book a' = book a1"
    by (auto simp: run_def save_data_def emit_def split: if_splits)
  ultimately show ?thesis by simp
qed

lemma ascii_ANN: "ascii ''ANN'' = [65, 78, 78]"
  by (simp add: ascii_def)

lemma key_ANN: "key cf (ascii ''ANN'') = ascii ''ann''"
  by (simp add: key_def casefold_def casefold_cp_def ascii_ANN ascii_ann)

text \<open>
  Claim C9: the book is keyed by the case-folded name and looked up without regard to
  case, and it holds at most one record for a case-folded name.
  \<^item> After \<^verbatim>\<open>add_record\<close> of a record, \<^verbatim>\<open>find\<close> of every name with the key of
    the record's name returns that record: so does every name that differs from it in
    the case of the letters A to Z only, and so do "Ann" and "ann" for a record named
    "Ann". \<^verbatim>\<open>find\<close> of a name with another key returns what it returned before.
  \<^item> \<^verbatim>\<open>find\<close> of a name whose key is not in the book returns \<^verbatim>\<open>None\<close>, not an
    exception, and two names with the same key find the same.
  \<^item> The empty book has the invariant \<open>book_inv\<close>: no key twice, every record under
    the key of its own name. In a book that has it, \<^verbatim>\<open>add_record\<close> replaces the
    record of the same key where it stands, or else appends the new one, and nothing
    more; at most one record has a name with a given key; \<^verbatim>\<open>find\<close> returns only a
    record of the book whose name has the key asked for, and \<^verbatim>\<open>None\<close> when no
    record of the book has such a name; \<^verbatim>\<open>delete\<close> removes that record and no
    other. \<^verbatim>\<open>add_record\<close>, \<^verbatim>\<open>delete\<close>, every turn of the command loop and the
    whole of \<^verbatim>\<open>run\<close> keep the invariant.
\<close>

theorem lookup_by_casefolded_name:
  "(key cf n = key cf (name r) \<longrightarrow> find_rec cf (add_record cf b r) n = Some r)
   \<and> (map ascii_lower n = map ascii_lower (name r) \<longrightarrow>
        find_rec cf (add_record cf b r) n = Some r)
   \<and> (name r = ascii ''Ann'' \<longrightarrow>
        find_rec cf (add_record cf b r) (ascii ''Ann'') = Some r
        \<and> find_rec cf (add_record cf b r) (ascii ''ann'') = Some r)
   \<and> (key cf n \<noteq> key cf (name r) \<longrightarrow> find_rec cf (add_record cf b r) n = find_rec cf b n)
   \<and> (key cf n \<notin> fst ` set b \<longrightarrow> find_rec cf b n = None)
   \<and> (key cf n = key cf n' \<longrightarrow> find_rec cf b n = find_rec cf b n')
   \<and> book_inv cf []
   \<and> (book_inv cf b \<longrightarrow>
        book_inv cf (add_record cf b r)
        \<and> add_record cf b r =
            (if key cf (name r) \<in> fst ` set b
             then map (\<lambda>kv. if fst kv = key cf (name r) then (key cf (name r), r) else kv) b
             else b @ [(key cf (name r), r)])
        \<and> length (filter (\<lambda>kv. key cf (name (snd kv)) = key cf n) b) \<le> 1
        \<and> (\<forall>r'. find_rec cf b n = Some r' \<longrightarrow>
              key cf (name r') = key cf n \<and> (key cf n, r') \<in> set b)
        \<and> ((\<forall>kv \<in> set b. key cf (name (snd kv)) \<noteq> key cf n) \<longrightarrow> find_rec cf b n = None)
        \<and> (\<forall>b'. delete cf b n = Inr b' \<longrightarrow>
              book_inv cf b' \<and> find_rec cf b' n = None
              \<and> b' = filter (\<lambda>kv. key cf (name (snd kv)) \<noteq> key cf n) b)
        \<and> (\<forall>e cmd args a fl a'.
              book a = b \<and> loop_body cf e cmd args a = (fl, a') \<longrightarrow> book_inv cf (book a'))
        \<and> (\<forall>sp lo ls e a res a'.
              book a = b \<and> run sp lo cf ls e a = (res, a') \<longrightarrow> book_inv cf (book a')))"
proof -
  have 1: "find_rec cf (add_record cf b r) n = Some r" if "key cf n = key cf (name r)"
    using that by (simp add: find_rec_def add_record_def dict_get_set_same)
  have 2: "find_rec cf (add_record cf b r) n = Some r"
    if "map ascii_lower n = map ascii_lower (name r)"
    using key_ascii_case [OF that, of cf]
    by (simp add: find_rec_def add_record_def dict_get_set_same)
  have 3: "find_rec cf (add_record cf b r) (ascii ''Ann'') = Some r
        \<and> find_rec cf (add_record cf b r) (ascii ''ann'') = Some r" if "name r = ascii ''Ann''"
    using that by (simp add: find_rec_def add_record_def key_Ann key_ann dict_get_set_same)
  have 4: "find_rec cf (add_record cf b r) n = find_rec cf b n" if "key cf n \<noteq> key cf (name r)"
    using that by (simp add: find_rec_def add_record_def dict_get_set_other)
  have 5: "find_rec cf b n = None" if "key cf n \<notin> fst ` set b"
    using that by (simp add: find_rec_def dict_get_None)
  have 6: "find_rec cf b n = find_rec cf b n'" if "key cf n = key cf n'"
    using that by (simp add: find_rec_def)
  have 7: "book_inv cf (add_record cf b r)
        \<and> add_record cf b r =
            (if key cf (name r) \<in> fst ` set b
             then map (\<lambda>kv. if fst kv = key cf (name r) then (key cf (name r), r) else kv) b
             else b @ [(key cf (name r), r)])
        \<and> length (filter (\<lambda>kv. key cf (name (snd kv)) = key cf n) b) \<le> 1
        \<and> (\<forall>r'. find_rec cf b n = Some r' \<longrightarrow>
              key cf (name r') = key cf n \<and> (key cf n, r') \<in> set b)
        \<and> ((\<forall>kv \<in> set b. key cf (name (snd kv)) \<noteq> key cf n) \<longrightarrow> find_rec cf b n = None)
        \<and> (\<forall>b'. delete cf b n = Inr b' \<longrightarrow>
              book_inv cf b' \<and> find_rec cf b' n = None
              \<and> b' = filter (\<lambda>kv. key cf (name (snd kv)) \<noteq> key cf n) b)
        \<and> (\<forall>e cmd args a fl a'.
              book a = b \<and> loop_body cf e cmd args a = (fl, a') \<longrightarrow> book_inv cf (book a'))
        \<and> (\<forall>sp lo ls e a res a'.
              book a = b \<and> run sp lo cf ls e a = (res, a') \<longrightarrow> book_inv cf (book a'))"
    if inv: "book_inv cf b"
  proof -
    from inv have wf: "wf_book b" by (simp add: book_inv_def)
    have a: "book_inv cf (add_record cf b r)"
      using inv by (rule book_inv_add_record)
    have b: "add_record cf b r =
            (if key cf (name r) \<in> fst ` set b
             then map (\<lambda>kv. if fst kv = key cf (name r) then (key cf (name r), r) else kv) b
             else b @ [(key cf (name r), r)])"
      unfolding add_record_def by (rule dict_set_exact [OF wf])
    have c: "length (filter (\<lambda>kv. key cf (name (snd kv)) = key cf n) b) \<le> 1"
      using inv by (rule book_inv_one)
    have d: "key cf (name r') = key cf n \<and> (key cf n, r') \<in> set b"
      if "find_rec cf b n = Some r'" for r'
      using find_rec_key [OF inv that] find_rec_member [OF that] by simp
    have e: "find_rec cf b n = None" if "\<forall>kv \<in> set b. key cf (name (snd kv)) \<noteq> key cf n"
      using inv that by (rule book_inv_absent)
    have f: "book_inv cf b' \<and> find_rec cf b' n = None
              \<and> b' = filter (\<lambda>kv. key cf (name (snd kv)) \<noteq> key cf n) b"
      if "delete cf b n = Inr b'" for b'
    proof -
      from that have b': "b' = dict_del b (key cf n)"
        by (auto simp: delete_def Let_def split: if_splits)
      have "find_rec cf (dict_del b (key cf n)) n = None"
        unfolding find_rec_def by (rule dict_get_del_same)
      with book_inv_dict_del [OF inv, of "key cf n"] book_inv_del_filter [OF inv, of "key cf n"]
      show ?thesis unfolding b' by blast
    qed
    have g: "book_inv cf (book a')"
      if "book a = b \<and> loop_body cf e cmd args a = (fl, a')" for e cmd args a fl a'
      using inv that loop_body_inv [of cf a e cmd args fl a'] by simp
    have h: "book_inv cf (book a')"
      if "book a = b \<and> run sp lo cf ls e a = (res, a')" for sp lo ls e a res a'
      using inv that run_inv [of cf a sp lo ls e res a'] by simp
    from a b c d e f g h show ?thesis by blast
  qed
  from 1 2 3 4 5 6 7 book_inv_Nil [of cf] show ?thesis by blast
qed

theorem lookup_by_casefolded_name_witness:
  "book_inv (\<lambda>c. [c])
     [(ascii ''ann'', \<lparr>name = ascii ''Ann'', phones = [ascii ''1234567890''], birthday = None\<rparr>)]
   \<and> name (new_Record (ascii ''Ann'')) = ascii ''Ann''
   \<and> map ascii_lower (ascii ''ANN'') = map ascii_lower (name (new_Record (ascii ''Ann'')))
   \<and> key (\<lambda>c. [c]) (ascii ''ANN'') = key (\<lambda>c. [c]) (name (new_Record (ascii ''Ann'')))
   \<and> key (\<lambda>c. [c]) (ascii ''ANN'') = key (\<lambda>c. [c]) (ascii ''ann'')
   \<and> add_record (\<lambda>c. [c])
       [(ascii ''ann'', \<lparr>name = ascii ''Ann'', phones = [ascii ''1234567890''], birthday = None\<rparr>)]
       (new_Record (ascii ''Ann''))
     = [(ascii ''ann'', new_Record (ascii ''Ann''))]
   \<and> find_rec (\<lambda>c. [c]) [(ascii ''ann'', new_Record (ascii ''Ann''))] (ascii ''ANN'')
     = Some (new_Record (ascii ''Ann''))
   \<and> find_rec (\<lambda>c. [c]) [(ascii ''ann'', new_Record (ascii ''Ann''))] (ascii ''Ann'')
     = Some (new_Record (ascii ''Ann''))
   \<and> find_rec (\<lambda>c. [c]) [(ascii ''ann'', new_Record (ascii ''Ann''))] (ascii ''ann'')
     = Some (new_Record (ascii ''Ann''))
   \<and> book_inv (\<lambda>c. [c]) [(ascii ''ann'', new_Record (ascii ''Ann''))]
   \<and> find_rec (\<lambda>c. [c])
       [(ascii ''ann'', \<lparr>name = ascii ''Ann'', phones = [ascii ''1234567890''], birthday = None\<rparr>)]
       (ascii ''ANN'')
     = Some \<lparr>name = ascii ''Ann'', phones = [ascii ''1234567890''], birthday = None\<rparr>
   \<and> delete (\<lambda>c. [c])
       [(ascii ''ann'', \<lparr>name = ascii ''Ann'', phones = [ascii ''1234567890''], birthday = None\<rparr>)]
       (ascii ''ANN'')
     = Inr []
   \<and> key (\<lambda>c. [c]) (ascii ''Bob'') \<noteq> key (\<lambda>c. [c]) (name (new_Record (ascii ''Ann'')))
   \<and> key (\<lambda>c. [c]) (ascii ''Bob'')
       \<notin> fst ` set [(ascii ''ann'', \<lparr>name = ascii ''Ann'', phones = [ascii ''1234567890''],
                                       birthday = None\<rparr>)]
   \<and> find_rec (\<lambda>c. [c]) [(ascii ''ann'', new_Record (ascii ''Ann''))] (ascii ''Bob'') = None
   \<and> find_rec (\<lambda>c. [c])
       [(ascii ''ann'', \<lparr>name = ascii ''Ann'', phones = [ascii ''1234567890''], birthday = None\<rparr>)]
       (ascii ''Bob'')
     = None
   \<and> loop_body (\<lambda>c. [c]) \<lparr>clock = \<lparr>year = 2024, month = 3, day = 1\<rparr>, writable = True\<rparr>
       (ascii ''add'') [ascii ''Bob'', ascii ''1234567890'']
       \<lparr>book = [(ascii ''ann'', \<lparr>name = ascii ''Ann'', phones = [ascii ''1234567890''],
                                  birthday = None\<rparr>)],
        trace = []\<rparr>
     = (Continue,
        \<lparr>book = [(ascii ''ann'', \<lparr>name = ascii ''Ann'', phones = [ascii ''1234567890''],
                                   birthday = None\<rparr>),
                 (ascii ''bob'', \<lparr>name = ascii ''Bob'', phones = [ascii ''1234567890''],
                                   birthday = None\<rparr>)],
         trace = [Saved [(ascii ''ann'', \<lparr>name = ascii ''Ann'', phones = [ascii ''1234567890''],
                                            birthday = None\<rparr>),
                         (ascii ''bob'', \<lparr>name = ascii ''Bob'', phones = [ascii ''1234567890''],
                                            birthday = None\<rparr>)],
                  Message ContactAdded]\<rparr>)
   \<and> book_inv (\<lambda>c. [c])
       [(ascii ''ann'', \<lparr>name = ascii ''Ann'', phones = [ascii ''1234567890''], birthday = None\<rparr>),
        (ascii ''bob'', \<lparr>name = ascii ''Bob'', phones = [ascii ''1234567890''], birthday = None\<rparr>)]"
proof -
  let ?cf = "\<lambda>c::nat. [c]"
  let ?ann = "\<lparr>name = ascii ''Ann'', phones = [ascii ''1234567890''], birthday = None\<rparr>"
  let ?bob = "\<lparr>name = ascii ''Bob'', phones = [ascii ''1234567890''], birthday = None\<rparr>"
  let ?b = "[(ascii ''ann'', ?ann)]"
  let ?r = "new_Record (ascii ''Ann'')"
  let ?e = "\<lparr>clock = \<lparr>year = 2024, month = 3, day = 1\<rparr>, writable = True\<rparr>"
  let ?a = "\<lparr>book = ?b, trace = []\<rparr>"
  let ?a' = "\<lparr>book = [(ascii ''ann'', ?ann), (ascii ''bob'', ?bob)],
              trace = [Saved [(ascii ''ann'', ?ann), (ascii ''bob'', ?bob)], Message ContactAdded]\<rparr>"
  note t = lookup_by_casefolded_name [of ?cf "ascii ''ANN''" ?r ?b "ascii ''ann''"]
  note u = lookup_by_casefolded_name [of ?cf "ascii ''Bob''" ?r ?b "ascii ''Bob''"]
  note rest = conjunct2 [THEN conjunct2, THEN conjunct2]
  have neq: "ascii ''bob'' \<noteq> ascii ''ann''" "ascii ''ann'' \<noteq> ascii ''bob''"
    by (simp_all add: ascii_bob ascii_ann)
  have inv: "book_inv ?cf ?b"
    by (simp add: book_inv_def wf_book_def keyed_def key_Ann)
  have nm: "name ?r = ascii ''Ann''"
    by (simp add: new_Record_def)
  have low: "map ascii_lower (ascii ''ANN'') = map ascii_lower (name ?r)"
    unfolding nm by (simp add: ascii_ANN ascii_Ann ascii_lower_def)
  have k1: "key ?cf (ascii ''ANN'') = key ?cf (name ?r)"
    unfolding nm by (simp add: key_ANN key_Ann)
  have k2: "key ?cf (ascii ''ANN'') = key ?cf (ascii ''ann'')"
    by (simp add: key_ANN key_ann)
  have k3: "key ?cf (ascii ''Bob'') \<noteq> key ?cf (name ?r)"
    unfolding nm by (simp add: key_Bob key_Ann neq)
  have k4: "key ?cf (ascii ''Bob'') \<notin> fst ` set ?b"
    by (simp add: key_Bob neq)
  have add: "add_record ?cf ?b ?r = [(ascii ''ann'', ?r)]"
    unfolding add_record_def nm by (simp add: key_Ann)
  have lb: "loop_body ?cf ?e (ascii ''add'') [ascii ''Bob'', ascii ''1234567890''] ?a = (Continue, ?a')"
    by (simp add: loop_body_commands handle_add_def input_error_def add_body_def find_rec_def
        key_Bob dict_get_def add_record_def new_Record_def add_phone_def Phone_phone0 neq
        save_and_tell_cases in_place_def after_def)
  from t [THEN conjunct1] k1 have f1: "find_rec ?cf (add_record ?cf ?b ?r) (ascii ''ANN'') = Some ?r"
    by (rule mp)
  from t [THEN conjunct2, THEN conjunct1] low
  have f2: "find_rec ?cf (add_record ?cf ?b ?r) (ascii ''ANN'') = Some ?r"
    by (rule mp)
  from t [THEN conjunct2, THEN conjunct2, THEN conjunct1] nm
  have f3: "find_rec ?cf (add_record ?cf ?b ?r) (ascii ''Ann'') = Some ?r
      \<and> find_rec ?cf (add_record ?cf ?b ?r) (ascii ''ann'') = Some ?r"
    by (rule mp)
  from u [THEN rest, THEN conjunct1] k3
  have f4: "find_rec ?cf (add_record ?cf ?b ?r) (ascii ''Bob'') = find_rec ?cf ?b (ascii ''Bob'')"
    by (rule mp)
  from u [THEN rest, THEN conjunct2, THEN conjunct1] k4
  have f5: "find_rec ?cf ?b (ascii ''Bob'') = None"
    by (rule mp)
  from t [THEN rest, THEN conjunct2, THEN conjunct2, THEN conjunct1] k2
  have f6: "find_rec ?cf ?b (ascii ''ANN'') = find_rec ?cf ?b (ascii ''ann'')"
    by (rule mp)
  have f7: "find_rec ?cf ?b (ascii ''ann'') = Some ?ann"
    by (simp add: find_rec_def key_ann dict_get_def)
  have del: "delete ?cf ?b (ascii ''ANN'') = Inr []"
    by (simp add: delete_def key_ANN dict_get_def dict_del_def)
  note i = t [THEN rest, THEN rest, THEN conjunct2, THEN mp, OF inv]
  from i have i1: "book_inv ?cf (add_record ?cf ?b ?r)"
    by (rule conjunct1)
  have i2: "book_inv ?cf (book ?a')"
    using i [THEN rest, THEN rest, THEN conjunct1, rule_format, OF conjI, OF _ lb] by simp
  from f1 f3 f4 f5 f6 f7 i1 i2 inv nm low k1 k2 k3 k4 add del lb
  show ?thesis by (simp only: add App.simps) simp
qed

section \<open>Properties of the upcoming birthdays\<close>

lemma ascii_0601: "ascii ''06.01.1990'' = [48, 54, 46, 48, 49, 46, 49, 57, 57, 48]"
  by (simp add: ascii_def)

lemma ascii_0301_2024: "ascii ''03.01.2024'' = [48, 51, 46, 48, 49, 46, 50, 48, 50, 52]"
  by (simp add: ascii_def)

lemma ascii_0801_2024: "ascii ''08.01.2024'' = [48, 56, 46, 48, 49, 46, 50, 48, 50, 52]"
  by (simp add: ascii_def)

lemma greeting_0301:
  "greeting \<lparr>year = 2024, month = 1, day = 1\<rparr> (ascii ''03.01.1990'')
     = Inr \<lparr>year = 2024, month = 1, day = 3\<rparr>"
  unfolding ascii_0301 by (simp add: greeting_def regex_eval date_eval)

lemma greeting_0601:
  "greeting \<lparr>year = 2024, month = 1, day = 1\<rparr> (ascii ''06.01.1990'')
     = Inr \<lparr>year = 2024, month = 1, day = 8\<rparr>"
  unfolding ascii_0601 by (simp add: greeting_def regex_eval date_eval)

lemma end_dates_2024:
  "date_add \<lparr>year = 2024, month = 1, day = 1\<rparr> 6 = Inr \<lparr>year = 2024, month = 1, day = 7\<rparr>"
  "date_add \<lparr>year = 2024, month = 1, day = 1\<rparr> 7 = Inr \<lparr>year = 2024, month = 1, day = 8\<rparr>"
  by (simp_all add: date_eval)

lemma strftime_2024:
  "strftime \<lparr>year = 2024, month = 1, day = 3\<rparr> = ascii ''03.01.2024''"
  "strftime \<lparr>year = 2024, month = 1, day = 8\<rparr> = ascii ''08.01.2024''"
  by (simp_all add: strftime_eval ascii_0301_2024 ascii_0801_2024)

lemma strptime_2024:
  "strptime (ascii ''03.01.2024'') = Inr \<lparr>year = 2024, month = 1, day = 3\<rparr>"
  "strptime (ascii ''08.01.2024'') = Inr \<lparr>year = 2024, month = 1, day = 8\<rparr>"
  unfolding ascii_0301_2024 ascii_0801_2024 by (simp_all add: strptime_eval)

lemma saturday_2024: "weekday \<lparr>year = 2024, month = 1, day = 6\<rparr> = 5"
  by (simp add: date_eval)

text \<open>
  Claim C2: with today 01.01.2024 and a window of 7 days, a record with the birthday
  03.01.1990 is in the result with the greeting date 03.01.2024, and a record with the
  birthday 06.01.1990, a Saturday in 2024, is reported with the shifted greeting date
  08.01.2024. The window of 7 days ends on 07.01.2024, and the record is in the result
  only if its shifted date is in the window: the second record is not reported.
\<close>

theorem saturday_birthday_outside_week_counterexample:
  "weekday \<lparr>year = 2024, month = 1, day = 6\<rparr> = 5
   \<and> get_upcoming_birthdays
       [(ascii ''bob'', \<lparr>name = ascii ''Bob'', phones = [], birthday = Some (ascii ''06.01.1990'')\<rparr>)]
       7 \<lparr>year = 2024, month = 1, day = 1\<rparr>
     = (Inr [], [(ascii ''bob'', \<lparr>name = ascii ''Bob'', phones = [],
                                   birthday = Some (ascii ''06.01.1990'')\<rparr>)])"
  by (simp add: saturday_2024 get_upcoming_birthdays_def end_dates_2024 greeting_0601
      date_le_def date_tuple_def sort_by_date_def)

text \<open>
  Claim C2 as the code has it: with today 01.01.2024, the record with the birthday
  03.01.1990 is reported with the greeting date 03.01.2024, a Wednesday, in the window
  of 7 days; the record with the birthday 06.01.1990, whose shifted greeting date is
  Monday 08.01.2024, is not in the window of 7 days and is reported, with that date, in
  the window of 8 days.
\<close>

theorem upcoming_birthdays_example:
  "get_upcoming_birthdays
       [(ascii ''ann'', \<lparr>name = ascii ''Ann'', phones = [], birthday = Some (ascii ''03.01.1990'')\<rparr>),
        (ascii ''bob'', \<lparr>name = ascii ''Bob'', phones = [], birthday = Some (ascii ''06.01.1990'')\<rparr>)]
       7 \<lparr>year = 2024, month = 1, day = 1\<rparr>
     = (Inr [(ascii ''Ann'', ascii ''03.01.2024'')],
        [(ascii ''ann'', \<lparr>name = ascii ''Ann'', phones = [], birthday = Some (ascii ''03.01.1990'')\<rparr>),
         (ascii ''bob'', \<lparr>name = ascii ''Bob'', phones = [], birthday = Some (ascii ''06.01.1990'')\<rparr>)])
   \<and> get_upcoming_birthdays
       [(ascii ''ann'', \<lparr>name = ascii ''Ann'', phones = [], birthday = Some (ascii ''03.01.1990'')\<rparr>),
        (ascii ''bob'', \<lparr>name = ascii ''Bob'', phones = [], birthday = Some (ascii ''06.01.1990'')\<rparr>)]
       8 \<lparr>year = 2024, month = 1, day = 1\<rparr>
     = (Inr [(ascii ''Ann'', ascii ''03.01.2024''), (ascii ''Bob'', ascii ''08.01.2024'')],
        [(ascii ''ann'', \<lparr>name = ascii ''Ann'', phones = [], birthday = Some (ascii ''03.01.1990'')\<rparr>),
         (ascii ''bob'', \<lparr>name = ascii ''Bob'', phones = [], birthday = Some (ascii ''06.01.1990'')\<rparr>)])
   \<and> weekday \<lparr>year = 2024, month = 1, day = 3\<rparr> = 2
   \<and> weekday \<lparr>year = 2024, month = 1, day = 6\<rparr> = 5
   \<and> weekday \<lparr>year = 2024, month = 1, day = 8\<rparr> = 0"
  by (simp add: get_upcoming_birthdays_def end_dates_2024 greeting_0301 greeting_0601
      date_le_def date_tuple_def sort_by_date_def strftime_2024 strptime_2024)
    (simp add: date_eval)

section \<open>Properties of the calendar\<close>

text \<open>
  The days before a year grow by the length of the year, and \<open>ord2ymd\<close> is the
  inverse of \<open>toordinal\<close>: the date it gives is a date of the calendar and has the
  ordinal it was given.
\<close>

lemma div_step:
  fixes y k :: int
  assumes "0 < k"
  shows "y div k - (y - 1) div k = (if y mod k = 0 then 1 else 0)"
proof (cases "y mod k = 0")
  case True
  have "y - 1 = k * (y div k - 1) + (k - 1)"
    using True mult_div_mod_eq [of k y] by (simp add: algebra_simps)
  then have "(y - 1) div k = y div k - 1"
    using assms by (intro int_div_pos_eq [of _ _ _ "k - 1"]) auto
  with True show ?thesis by simp
next
  case False
  have r: "0 \<le> y mod k" "y mod k < k"
    using assms by simp_all
  have "y - 1 = k * (y div k) + (y mod k - 1)"
    using mult_div_mod_eq [of k y] by (simp add: algebra_simps)
  then have "(y - 1) div k = y div k"
    using assms r False by (intro int_div_pos_eq [of _ _ _ "y mod k - 1"]) auto
  with False show ?thesis by simp
qed

lemma mod_400_100: "(y::int) mod 400 = 0 \<Longrightarrow> y mod 100 = 0"
  using mod_mod_cancel [of 100 400 y] by simp

lemma mod_100_4: "(y::int) mod 100 = 0 \<Longrightarrow> y mod 4 = 0"
  using mod_mod_cancel [of 4 100 y] by simp

lemma year_step_aux:
  fixes A A' B B' C C' u v w y :: int
  assumes "A - A' = u" "B - B' = v" "C - C' = w"
  shows "(y * 365 + A - B + C) = ((y - 1) * 365 + A' - B' + C') + 365 + (u - v + w)"
  using assms by (simp add: algebra_simps)

lemma leap_count:
  "(if (y::int) mod 4 = 0 then 1 else 0) - (if y mod 100 = 0 then 1 else 0)
     + (if y mod 400 = 0 then 1 else 0) = (if is_leap y then 1 else (0::int))"
proof (cases "y mod 400 = 0")
  case True
  with mod_400_100 [of y] have "y mod 100 = 0" by blast
  with mod_100_4 [of y] have "y mod 4 = 0" by blast
  with True \<open>y mod 100 = 0\<close> show ?thesis unfolding is_leap_def by simp
next
  case n400: False
  show ?thesis
  proof (cases "y mod 100 = 0")
    case True
    with mod_100_4 [of y] have "y mod 4 = 0" by blast
    with True n400 show ?thesis unfolding is_leap_def by simp
  next
    case False
    with n400 show ?thesis unfolding is_leap_def by (cases "y mod 4 = 0") simp_all
  qed
qed

lemma days_before_year_Suc:
  "days_before_year (y + 1) = days_before_year y + 365 + (if is_leap y then 1 else 0)"
proof -
  have "days_before_year (y + 1) = y * 365 + y div 4 - y div 100 + y div 400"
    by (simp add: days_before_year_def)
  also have "\<dots> = ((y - 1) * 365 + (y - 1) div 4 - (y - 1) div 100 + (y - 1) div 400) + 365
      + ((if y mod 4 = 0 then 1 else 0) - (if y mod 100 = 0 then 1 else 0)
         + (if y mod 400 = 0 then 1 else 0))"
    by (rule year_step_aux; rule div_step; simp)
  also have "\<dots> = days_before_year y + 365 + (if is_leap y then 1 else 0)"
    unfolding leap_count by (simp only: days_before_year_def)
  finally show ?thesis .
qed

lemma days_before_year_mono: "y \<le> y' \<Longrightarrow> days_before_year y \<le> days_before_year y'"
proof (induction y' rule: int_ge_induct)
  case base
  then show ?case by simp
next
  case (step i)
  have "days_before_year i \<le> days_before_year (i + 1)"
    unfolding days_before_year_Suc by simp
  with step show ?case by simp
qed

lemma month_estimate:
  fixes k :: int
  assumes "0 \<le> k" "k \<le> 365"
  obtains m where "(k + 50) div 32 = m" "1 \<le> m" "m \<le> 12" "32 * m \<le> k + 50" "k + 50 < 32 * m + 32"
proof -
  define m where "m = (k + 50) div 32"
  define r where "r = (k + 50) mod 32"
  have eq: "k + 50 = 32 * m + r" and r: "0 \<le> r" "r < 32"
    unfolding m_def r_def by simp_all
  with assms have "1 \<le> m" "m \<le> 12" "32 * m \<le> k + 50" "k + 50 < 32 * m + 32"
    by linarith+
  with m_def show thesis using that by blast
qed

lemma month_cases:
  "1 \<le> (m::int) \<Longrightarrow> m \<le> 12 \<Longrightarrow>
   m = 1 \<or> m = 2 \<or> m = 3 \<or> m = 4 \<or> m = 5 \<or> m = 6 \<or> m = 7 \<or> m = 8 \<or> m = 9 \<or> m = 10
   \<or> m = 11 \<or> m = 12"
  by presburger

lemma month_day_estimate:
  "(k + 50) div 32 = m0 \<Longrightarrow>
   month_day L k =
     (if DAYS_BEFORE_MONTH m0 + (if m0 > 2 \<and> L then 1 else 0) > k
      then (m0 - 1, k - (DAYS_BEFORE_MONTH m0 + (if m0 > 2 \<and> L then 1 else 0)
                 - (DAYS_IN_MONTH (m0 - 1) + (if m0 - 1 = 2 \<and> L then 1 else 0))) + 1)
      else (m0, k - (DAYS_BEFORE_MONTH m0 + (if m0 > 2 \<and> L then 1 else 0)) + 1))"
  by (simp add: month_day_def Let_def)

lemma month_day_range:
  fixes k :: int
  assumes "0 \<le> k" "k < 365 + (if L then 1 else 0)" "1 \<le> m0" "m0 \<le> 12"
    "32 * m0 \<le> k + 50" "k + 50 < 32 * m0 + 32"
    "(if DAYS_BEFORE_MONTH m0 + (if m0 > 2 \<and> L then 1 else 0) > k
      then (m0 - 1, k - (DAYS_BEFORE_MONTH m0 + (if m0 > 2 \<and> L then 1 else 0)
                 - (DAYS_IN_MONTH (m0 - 1) + (if m0 - 1 = 2 \<and> L then 1 else 0))) + 1)
      else (m0, k - (DAYS_BEFORE_MONTH m0 + (if m0 > 2 \<and> L then 1 else 0)) + 1)) = (m, d)"
  shows "1 \<le> m \<and> m \<le> 12 \<and> 1 \<le> d \<and> d \<le> DAYS_IN_MONTH m + (if m = 2 \<and> L then 1 else 0)
         \<and> DAYS_BEFORE_MONTH m + (if m > 2 \<and> L then 1 else 0) + d = k + 1"
  using month_cases [OF assms(3,4)] assms(1,2,5,6,7)
  by (elim disjE) (auto simp: DAYS_BEFORE_MONTH_def DAYS_IN_MONTH_def split: if_splits)

lemma month_day_correct:
  assumes "0 \<le> k" "k < 365 + (if L then 1 else 0)" "month_day L k = (m, d)"
  shows "1 \<le> m \<and> m \<le> 12 \<and> 1 \<le> d \<and> d \<le> DAYS_IN_MONTH m + (if m = 2 \<and> L then 1 else 0)
         \<and> DAYS_BEFORE_MONTH m + (if m > 2 \<and> L then 1 else 0) + d = k + 1"
proof -
  from assms(1,2) have "k \<le> 365" by (simp split: if_splits)
  with assms(1) obtain m0 where m0: "(k + 50) div 32 = m0" "1 \<le> m0" "m0 \<le> 12"
      "32 * m0 \<le> k + 50" "k + 50 < 32 * m0 + 32"
    by (rule month_estimate)
  from assms(3) show ?thesis
    unfolding month_day_estimate [OF m0(1)]
    by (rule month_day_range [OF assms(1,2) m0(2-5)])
qed

lemma days_before_year_decomp:
  assumes "0 \<le> b" "b \<le> 3" "0 \<le> c" "c \<le> 24" "0 \<le> d" "d \<le> 3"
  shows "days_before_year (400 * a + 100 * b + 4 * c + d + 1)
           = 146097 * a + 36524 * b + 1461 * c + 365 * d"
proof -
  define z where "z = 400 * a + 100 * b + 4 * c + d"
  have d400: "z div 400 = a"
    using assms by (intro int_div_pos_eq [of _ _ _ "100 * b + 4 * c + d"]) (simp_all add: z_def)
  have d100: "z div 100 = 4 * a + b"
    using assms by (intro int_div_pos_eq [of _ _ _ "4 * c + d"]) (simp_all add: z_def)
  have d4: "z div 4 = 100 * a + 25 * b + c"
    using assms by (intro int_div_pos_eq [of _ _ _ d]) (simp_all add: z_def)
  have "days_before_year (z + 1) = z * 365 + z div 4 - z div 100 + z div 400"
    by (simp add: days_before_year_def)
  also have "\<dots> = 146097 * a + 36524 * b + 1461 * c + 365 * d"
    unfolding d400 d100 d4 by (simp add: z_def)
  finally show ?thesis by (simp add: z_def)
qed

lemma is_leap_decomp:
  assumes "0 \<le> b" "b \<le> 3" "0 \<le> c" "c \<le> 24" "0 \<le> d" "d \<le> 3"
  shows "is_leap (400 * a + 100 * b + 4 * c + d + 1) = (d = 3 \<and> (c \<noteq> 24 \<or> b = 3))"
proof -
  define y where "y = 400 * a + 100 * b + 4 * c + d + 1"
  have m4: "(y mod 4 = 0) = (d = 3)"
  proof (cases "d = 3")
    case True
    have "y mod 4 = 0"
      using assms True by (intro int_mod_pos_eq [of _ _ "100 * a + 25 * b + c + 1"]) (simp_all add: y_def)
    with True show ?thesis by simp
  next
    case False
    have "y mod 4 = d + 1"
      using assms False by (intro int_mod_pos_eq [of _ _ "100 * a + 25 * b + c"]) (simp_all add: y_def)
    with False assms show ?thesis by simp
  qed
  have m100: "(y mod 100 = 0) = (d = 3 \<and> c = 24)"
  proof (cases "d = 3 \<and> c = 24")
    case True
    have "y mod 100 = 0"
      using assms True by (intro int_mod_pos_eq [of _ _ "4 * a + b + 1"]) (simp_all add: y_def)
    with True show ?thesis by simp
  next
    case False
    have "y mod 100 = 4 * c + d + 1"
      using assms False by (intro int_mod_pos_eq [of _ _ "4 * a + b"]) (auto simp: y_def)
    with False assms show ?thesis by auto
  qed
  have m400: "(y mod 400 = 0) = (d = 3 \<and> c = 24 \<and> b = 3)"
  proof (cases "d = 3 \<and> c = 24 \<and> b = 3")
    case True
    have "y mod 400 = 0"
      using assms True by (intro int_mod_pos_eq [of _ _ "a + 1"]) (simp_all add: y_def)
    with True show ?thesis by simp
  next
    case False
    have "y mod 400 = 100 * b + 4 * c + d + 1"
      using assms False by (intro int_mod_pos_eq [of _ _ a]) (auto simp: y_def)
    with False assms show ?thesis by auto
  qed
  show ?thesis
    unfolding is_leap_def y_def [symmetric] m4 m100 m400 by auto
qed

lemma divmod_obtain:
  fixes x k :: int
  assumes "0 < k"
  obtains q r where "x div k = q" "x mod k = r" "x = k * q + r" "0 \<le> r" "r < k"
  using assms by (metis mult_div_mod_eq pos_mod_sign pos_mod_bound)

lemma ord2ymd_correct:
  assumes "1 \<le> n"
  shows "toordinal (ord2ymd n) = n
       \<and> 1 \<le> year (ord2ymd n) \<and> 1 \<le> month (ord2ymd n) \<and> month (ord2ymd n) \<le> 12
       \<and> 1 \<le> day (ord2ymd n)
       \<and> day (ord2ymd n) \<le> days_in_month (year (ord2ymd n)) (month (ord2ymd n))"
proof -
  obtain a r1 where a: "(n - 1) div 146097 = a" "(n - 1) mod 146097 = r1"
      "n - 1 = 146097 * a + r1" "0 \<le> r1" "r1 < 146097"
    by (rule divmod_obtain [of 146097 "n - 1"]) simp
  obtain b r2 where b: "r1 div 36524 = b" "r1 mod 36524 = r2"
      "r1 = 36524 * b + r2" "0 \<le> r2" "r2 < 36524"
    by (rule divmod_obtain [of 36524 r1]) simp
  obtain c r3 where c: "r2 div 1461 = c" "r2 mod 1461 = r3"
      "r2 = 1461 * c + r3" "0 \<le> r3" "r3 < 1461"
    by (rule divmod_obtain [of 1461 r2]) simp
  obtain d k where d: "r3 div 365 = d" "r3 mod 365 = k"
      "r3 = 365 * d + k" "0 \<le> k" "k < 365"
    by (rule divmod_obtain [of 365 r3]) simp
  have a0: "0 \<le> a" using assms a(3,5) by linarith
  have b_range: "0 \<le> b" "b \<le> 4" using a(4,5) b(3,4,5) by linarith+
  have c_range: "0 \<le> c" "c \<le> 24" using b(4,5) c(3,4,5) by linarith+
  have d_range: "0 \<le> d" "d \<le> 4" using c(4,5) d(3,4,5) by linarith+
  note lin = a(3-5) b(3-5) c(3-5) d(3-5)
  define L where "L = (d = 3 \<and> (c \<noteq> 24 \<or> b = 3))"
  have year: "a * 400 + 1 + (b * 100 + c * 4 + d) = 400 * a + 100 * b + 4 * c + d + 1"
    by simp
  have unfold: "ord2ymd n =
      (if d = 4 \<or> b = 4 then \<lparr>year = 400 * a + 100 * b + 4 * c + d, month = 12, day = 31\<rparr>
       else case month_day L k of (m, dd) \<Rightarrow>
         \<lparr>year = 400 * a + 100 * b + 4 * c + d + 1, month = m, day = dd\<rparr>)"
    unfolding ord2ymd_def Let_def a(1,2) b(1,2) c(1,2) d(1,2) L_def year by simp
  show ?thesis
  proof (cases "b = 4")
    case True
    with lin c_range d_range have z: "r2 = 0" "c = 0" "r3 = 0" "d = 0" "k = 0" by linarith+
    have y: "400 * a + 100 * b + 4 * c + d = 400 * a + 100 * 3 + 4 * 24 + 3 + 1"
      using True z by simp
    have dby: "days_before_year (400 * a + 100 * b + 4 * c + d) = 146097 * a + 145731"
      unfolding y by (subst days_before_year_decomp) simp_all
    have leap: "is_leap (400 * a + 100 * b + 4 * c + d)"
      unfolding y by (subst is_leap_decomp) simp_all
    have "n = 146097 * a + 146097" using lin True z by linarith
    with True a0 dby leap z show ?thesis
      unfolding unfold
      by (simp add: toordinal_def days_before_month_def DAYS_BEFORE_MONTH_def days_in_month_def
          DAYS_IN_MONTH_def)
  next
    case b4: False
    with b_range have b3: "b \<le> 3" by simp
    show ?thesis
    proof (cases "d = 4")
      case True
      with lin have r3: "r3 = 1460" "k = 0" by linarith+
      with lin b3 have c23: "c \<le> 23" by linarith
      have y: "400 * a + 100 * b + 4 * c + d = 400 * a + 100 * b + 4 * c + 3 + 1"
        using True by simp
      have dby: "days_before_year (400 * a + 100 * b + 4 * c + d)
          = 146097 * a + 36524 * b + 1461 * c + 365 * 3"
        unfolding y using b_range(1) b3 c_range by (subst days_before_year_decomp) simp_all
      have leap: "is_leap (400 * a + 100 * b + 4 * c + d)"
        unfolding y using b_range(1) b3 c_range c23 by (subst is_leap_decomp) simp_all
      have "n = 146097 * a + 36524 * b + 1461 * c + 1461" using lin r3 by linarith
      with True a0 b_range c_range dby leap show ?thesis
        unfolding unfold
        by (simp add: toordinal_def days_before_month_def DAYS_BEFORE_MONTH_def days_in_month_def
            DAYS_IN_MONTH_def)
    next
      case False
      with d_range have d3: "d \<le> 3" by simp
      obtain m dd where md: "month_day L k = (m, dd)" by (cases "month_day L k")
      have k: "k < 365 + (if L then 1 else 0)" using d(5) by simp
      note mdc = month_day_correct [OF d(4) k md]
      have dby: "days_before_year (400 * a + 100 * b + 4 * c + d + 1)
          = 146097 * a + 36524 * b + 1461 * c + 365 * d"
        using b_range(1) b3 c_range d_range(1) d3 by (rule days_before_year_decomp)
      have leap: "is_leap (400 * a + 100 * b + 4 * c + d + 1) = L"
        unfolding L_def using b_range(1) b3 c_range d_range(1) d3 by (rule is_leap_decomp)
      have n: "n = 146097 * a + 36524 * b + 1461 * c + 365 * d + k + 1"
        using lin by linarith
      have dim: "dd \<le> days_in_month (400 * a + 100 * b + 4 * c + d + 1) m"
        using mdc by (auto simp: days_in_month_def leap DAYS_IN_MONTH_def split: if_splits)
      from False b4 md mdc a0 b_range c_range d_range n dim show ?thesis
        unfolding unfold
        by (simp add: toordinal_def days_before_month_def dby leap)
    qed
  qed
qed

lemma days_before_year_1: "days_before_year 1 = 0"
  by (simp add: days_before_year_def)

lemma days_before_year_10000: "days_before_year 10000 = 3652059"
  by (simp add: days_before_year_def)

lemma days_before_year_nonneg: "1 \<le> y \<Longrightarrow> 0 \<le> days_before_year y"
  using days_before_year_mono [of 1 y] by (simp add: days_before_year_1)

lemma days_before_month_Suc:
  "1 \<le> m \<Longrightarrow> m \<le> 11 \<Longrightarrow>
   days_before_month y (m + 1) = days_before_month y m + days_in_month y m"
  using month_cases [of m]
  by (auto simp: days_before_month_def days_in_month_def DAYS_BEFORE_MONTH_def DAYS_IN_MONTH_def)

lemma days_before_month_12:
  "days_before_month y 12 + days_in_month y 12 = 365 + (if is_leap y then 1 else 0)"
  by (simp add: days_before_month_def days_in_month_def DAYS_BEFORE_MONTH_def DAYS_IN_MONTH_def)

lemma days_in_month_pos: "0 < days_in_month y m"
  by (simp add: days_in_month_def DAYS_IN_MONTH_def)

lemma days_before_month_mono:
  "m \<le> m' \<Longrightarrow> 1 \<le> m \<Longrightarrow> m' \<le> 12 \<Longrightarrow> days_before_month y m \<le> days_before_month y m'"
proof (induction m' rule: int_ge_induct)
  case base
  then show ?case by simp
next
  case (step i)
  then have "days_before_month y (i + 1) = days_before_month y i + days_in_month y i"
    by (intro days_before_month_Suc) simp_all
  with step days_in_month_pos [of y i] show ?case by simp
qed

lemma days_before_month_nonneg: "1 \<le> m \<Longrightarrow> m \<le> 12 \<Longrightarrow> 0 \<le> days_before_month y m"
  using days_before_month_mono [of 1 m y]
  by (simp add: days_before_month_def DAYS_BEFORE_MONTH_def)

lemma day_of_year_le:
  assumes "1 \<le> m" "m \<le> 12" "d \<le> days_in_month y m"
  shows "days_before_month y m + d \<le> 365 + (if is_leap y then 1 else 0)"
proof -
  have "days_before_month y m + days_in_month y m \<le> days_before_month y 12 + days_in_month y 12"
  proof (cases "m = 12")
    case True
    then show ?thesis by simp
  next
    case False
    with assms have "days_before_month y (m + 1) \<le> days_before_month y 12"
      by (intro days_before_month_mono) simp_all
    with assms False days_before_month_Suc [of m y] days_in_month_pos [of y 12]
    show ?thesis by simp
  qed
  with assms(3) show ?thesis unfolding days_before_month_12 by simp
qed

lemma toordinal_bounds:
  assumes "valid_date d"
  shows "1 \<le> toordinal d" and "toordinal d \<le> MAXORDINAL"
    and "days_before_year (year d) < toordinal d"
    and "toordinal d \<le> days_before_year (year d + 1)"
proof -
  from assms have v: "1 \<le> year d" "year d \<le> 9999" "1 \<le> month d" "month d \<le> 12"
      "1 \<le> day d" "day d \<le> days_in_month (year d) (month d)"
    by (simp_all add: valid_date_def)
  have lo: "0 \<le> days_before_month (year d) (month d)"
    using v by (intro days_before_month_nonneg)
  show "days_before_year (year d) < toordinal d"
    using lo v(5) by (simp add: toordinal_def)
  with days_before_year_nonneg [OF v(1)] show "1 \<le> toordinal d" by simp
  show hi: "toordinal d \<le> days_before_year (year d + 1)"
    using day_of_year_le [OF v(3,4,6)] unfolding days_before_year_Suc toordinal_def by simp
  have "days_before_year (year d + 1) \<le> days_before_year 10000"
    using v(2) by (intro days_before_year_mono) simp
  with hi show "toordinal d \<le> MAXORDINAL"
    by (simp add: days_before_year_10000 MAXORDINAL_def)
qed

lemma ord2ymd_valid:
  assumes "1 \<le> n" "n \<le> MAXORDINAL"
  shows "valid_date (ord2ymd n)"
proof -
  note c = ord2ymd_correct [OF assms(1)]
  have "year (ord2ymd n) \<le> 9999"
  proof (rule ccontr)
    assume "\<not> year (ord2ymd n) \<le> 9999"
    then have "days_before_year 10000 \<le> days_before_year (year (ord2ymd n))"
      by (intro days_before_year_mono) simp
    moreover have "0 \<le> days_before_month (year (ord2ymd n)) (month (ord2ymd n))"
      using c by (intro days_before_month_nonneg) simp_all
    ultimately have "3652059 < toordinal (ord2ymd n)"
      using c unfolding toordinal_def [of "ord2ymd n"] days_before_year_10000 by linarith
    with c assms(2) show False by (simp add: MAXORDINAL_def)
  qed
  with c show ?thesis by (simp add: valid_date_def)
qed

lemma toordinal_ord2ymd: "1 \<le> n \<Longrightarrow> toordinal (ord2ymd n) = n"
  using ord2ymd_correct by blast

text \<open>The order of the dates, which compares tuples, is the order of their ordinals.\<close>

lemma date_lt_toordinal:
  assumes "valid_date a" "valid_date b" "date_lt a b"
  shows "toordinal a < toordinal b"
proof -
  from assms(1) have va: "1 \<le> month a" "month a \<le> 12" "1 \<le> day a"
      "day a \<le> days_in_month (year a) (month a)"
    by (simp_all add: valid_date_def)
  from assms(2) have vb: "1 \<le> month b" "month b \<le> 12" "1 \<le> day b"
    by (simp_all add: valid_date_def)
  from assms(3) have "year a < year b \<or> (year a = year b \<and> month a < month b)
      \<or> (year a = year b \<and> month a = month b \<and> day a < day b)"
    by (auto simp: date_lt_def date_tuple_def)
  then consider "year a < year b"
    | "year a = year b" "month a < month b"
    | "year a = year b" "month a = month b" "day a < day b"
    by blast
  then show ?thesis
  proof cases
    case 1
    then have "days_before_year (year a + 1) \<le> days_before_year (year b)"
      by (intro days_before_year_mono) simp
    with toordinal_bounds(4) [OF assms(1)] toordinal_bounds(3) [OF assms(2)]
    show ?thesis by simp
  next
    case 2
    then have "days_before_month (year a) (month a + 1) \<le> days_before_month (year a) (month b)"
      using va vb by (intro days_before_month_mono) simp_all
    moreover have "days_before_month (year a) (month a + 1)
        = days_before_month (year a) (month a) + days_in_month (year a) (month a)"
      using 2 va vb by (intro days_before_month_Suc) simp_all
    ultimately show ?thesis
      using 2 va vb by (simp add: toordinal_def)
  next
    case 3
    then show ?thesis by (simp add: toordinal_def)
  qed
qed

lemma date_tuple_inject: "date_tuple a = date_tuple b \<Longrightarrow> a = b"
  by (cases a, cases b) (simp add: date_tuple_def)

lemma date_le_toordinal:
  assumes "valid_date a" "valid_date b"
  shows "date_le a b = (toordinal a \<le> toordinal b)"
proof (cases "date_tuple a \<le> date_tuple b")
  case True
  then have "date_tuple a < date_tuple b \<or> a = b"
    using date_tuple_inject by (auto simp: le_less)
  with assms True show ?thesis
    using date_lt_toordinal [of a b] by (auto simp: date_le_def date_lt_def)
next
  case False
  then have "date_lt b a" by (simp add: date_lt_def)
  with assms False show ?thesis
    using date_lt_toordinal [of b a] by (auto simp: date_le_def)
qed

lemma date_lt_toordinal_iff:
  assumes "valid_date a" "valid_date b"
  shows "date_lt a b = (toordinal a < toordinal b)"
  using date_le_toordinal [OF assms(2,1)]
  by (auto simp: date_le_def date_lt_def not_le [symmetric])

section \<open>Properties of parsing and formatting\<close>

text \<open>A date that has been formatted parses back to itself.\<close>

lemma day_cases:
  "1 \<le> (dd::int) \<Longrightarrow> dd \<le> 31 \<Longrightarrow>
   dd = 1 \<or> dd = 2 \<or> dd = 3 \<or> dd = 4 \<or> dd = 5 \<or> dd = 6 \<or> dd = 7 \<or> dd = 8
   \<or> dd = 9 \<or> dd = 10 \<or> dd = 11 \<or> dd = 12 \<or> dd = 13 \<or> dd = 14 \<or> dd = 15
   \<or> dd = 16 \<or> dd = 17 \<or> dd = 18 \<or> dd = 19 \<or> dd = 20 \<or> dd = 21 \<or> dd = 22
   \<or> dd = 23 \<or> dd = 24 \<or> dd = 25 \<or> dd = 26 \<or> dd = 27 \<or> dd = 28 \<or> dd = 29
   \<or> dd = 30 \<or> dd = 31"
  by presburger

lemma re_dot_simps:
  "re_dot (46 # r) = [r]"
  "c \<noteq> 46 \<Longrightarrow> re_dot (c # r) = []"
  by (simp_all add: re_dot_def)

lemma re_day_fmt2:
  assumes "1 \<le> n" "n \<le> 31"
  shows "concat (map (\<lambda>(g, r1). concat (map (F g) (re_dot r1))) (re_day (fmt2 n @ 46 # rest)))
           = F (fmt2 n) rest"
    and "py_int (fmt2 n) = n"
  using day_cases [OF assms]
  by (elim disjE; simp add: fmt2_def re_day_def digit_in_def decimal_def re_dot_def py_int_def
      strip_def isspace_def)+

lemma re_month_fmt2:
  assumes "1 \<le> n" "n \<le> 12"
  shows "concat (map (\<lambda>(g, r1). concat (map (F g) (re_dot r1))) (re_month (fmt2 n @ 46 # rest)))
           = F (fmt2 n) rest"
  using month_cases [OF assms]
  by (elim disjE; simp add: fmt2_def re_month_def digit_in_def re_dot_def)

lemma fmt4_digits:
  fixes y :: int
  assumes "0 \<le> y" "y \<le> 9999"
  obtains a b c d where "fmt4 y = [48 + a, 48 + b, 48 + c, 48 + d]" "a < 10" "b < 10" "c < 10" "d < 10"
    "y = 1000 * int a + 100 * int b + 10 * int c + int d"
proof -
  define q1 where "q1 = y div 10"
  define q2 where "q2 = q1 div 10"
  define q3 where "q3 = q2 div 10"
  have e1: "y = 10 * q1 + y mod 10" and r1: "0 \<le> y mod 10" "y mod 10 < 10"
    unfolding q1_def by simp_all
  have e2: "q1 = 10 * q2 + q1 mod 10" and r2: "0 \<le> q1 mod 10" "q1 mod 10 < 10"
    unfolding q2_def by simp_all
  have e3: "q2 = 10 * q3 + q2 mod 10" and r3: "0 \<le> q2 mod 10" "q2 mod 10 < 10"
    unfolding q3_def by simp_all
  define d0 d1 d2 where "d0 = y mod 10" and "d1 = q1 mod 10" and "d2 = q2 mod 10"
  note lin = e1 [folded d0_def] r1 [folded d0_def] e2 [folded d1_def] r2 [folded d1_def]
    e3 [folded d2_def] r3 [folded d2_def]
  from lin assms have q3: "0 \<le> q3" "q3 < 10" by linarith+
  then have m3: "q3 mod 10 = q3" by simp
  have h: "y div 100 = q2" "y div 1000 = q3"
    unfolding q3_def q2_def q1_def by (simp_all add: zdiv_zmult2_eq)
  have "fmt4 y = [48 + nat q3, 48 + nat d2, 48 + nat d1, 48 + nat d0]"
    unfolding fmt4_def h m3 d0_def d1_def d2_def q1_def [symmetric] q2_def [symmetric] ..
  moreover have "nat q3 < 10" "nat d2 < 10" "nat d1 < 10" "nat d0 < 10"
    using q3 lin by linarith+
  moreover have "y = 1000 * int (nat q3) + 100 * int (nat d2) + 10 * int (nat d1) + int (nat d0)"
    using q3 lin by simp
  ultimately show thesis using that by blast
qed

lemma ascii_digit_not_space: "c < 10 \<Longrightarrow> \<not> isspace (48 + c)"
  by (simp add: isspace_def)

lemma py_int_four:
  assumes "a < 10" "b < 10" "c < 10" "d < 10"
  shows "py_int [48 + a, 48 + b, 48 + c, 48 + d] = 1000 * int a + 100 * int b + 10 * int c + int d"
  using assms by (simp add: py_int_def strip_def ascii_digit_not_space ascii_digit_decimal)

lemma re_year_four:
  assumes "a < 10" "b < 10" "c < 10" "d < 10"
  shows "re_year [48 + a, 48 + b, 48 + c, 48 + d] = [([48 + a, 48 + b, 48 + c, 48 + d], [])]"
  using assms by (simp add: re_year_def ascii_digit_decimal)

lemma fmt_year_four:
  assumes "1000 \<le> y" "y \<le> 9999"
  shows "fmt_year y = fmt4 y"
proof -
  have y0: "0 \<le> y" using assms(1) by simp
  obtain a b c e where y: "fmt4 y = [48 + a, 48 + b, 48 + c, 48 + e]"
      "a < 10" "b < 10" "c < 10" "e < 10"
      "y = 1000 * int a + 100 * int b + 10 * int c + int e"
    by (rule fmt4_digits [OF y0 assms(2)])
  from y(3-6) assms(1) have "a \<noteq> 0" by linarith
  then show ?thesis by (simp add: fmt_year_def y(1))
qed

lemma strptime_strftime:
  assumes "valid_date d" "1000 \<le> year d"
  shows "strptime (strftime d) = Inr d"
proof -
  from assms have v: "1 \<le> year d" "year d \<le> 9999" "1 \<le> month d" "month d \<le> 12"
      "1 \<le> day d" "day d \<le> days_in_month (year d) (month d)"
    by (simp_all add: valid_date_def)
  have d31: "day d \<le> 31"
    using v(6) by (simp add: days_in_month_def DAYS_IN_MONTH_def split: if_splits)
  have y0: "0 \<le> year d" using v(1) by simp
  obtain a b c e where y: "fmt4 (year d) = [48 + a, 48 + b, 48 + c, 48 + e]"
      "a < 10" "b < 10" "c < 10" "e < 10"
      "year d = 1000 * int a + 100 * int b + 10 * int c + int e"
    by (rule fmt4_digits [OF y0 v(2)])
  have m: "re_matches (strftime d) = [(fmt2 (day d), fmt2 (month d), fmt4 (year d), [])]"
    unfolding re_matches_def strftime_def fmt_year_four [OF assms(2) v(2)] append_Cons append_Nil
      re_day_fmt2(1) [OF v(5) d31] re_dot_simps(1) re_month_fmt2 [OF v(3,4)]
    by (simp add: y(1) re_year_four [OF y(2-5)] re_dot_simps)
  have "py_int (fmt2 (day d)) = day d"
    by (rule re_day_fmt2(2) [OF v(5) d31])
  moreover have "py_int (fmt2 (month d)) = month d"
    using v(3,4) by (intro re_day_fmt2(2)) simp_all
  moreover have "py_int (fmt4 (year d)) = year d"
  proof -
    have "py_int (fmt4 (year d)) = py_int [48 + a, 48 + b, 48 + c, 48 + e]"
      by (simp only: y(1))
    also have "\<dots> = 1000 * int a + 100 * int b + 10 * int c + int e"
      by (rule py_int_four [OF y(2-5)])
    also have "\<dots> = year d"
      by (rule y(6) [symmetric])
    finally show ?thesis .
  qed
  ultimately show ?thesis
    using v by (simp add: strptime_def m make_date_def)
qed

lemma make_date_valid: "make_date y m d = Inr x \<Longrightarrow> valid_date x \<and> x = \<lparr>year = y, month = m, day = d\<rparr>"
  by (auto simp: make_date_def valid_date_def split: if_splits)

lemma strptime_valid: "strptime v = Inr d \<Longrightarrow> valid_date d"
  by (auto simp: strptime_def split: list.splits if_splits dest: make_date_valid)

section \<open>The upcoming birthdays meet their specification\<close>

lemma date_add_plus_days:
  assumes "valid_date d" "0 \<le> n" "toordinal d + n \<le> MAXORDINAL"
  shows "date_add d n = Inr (plus_days d n)"
    and "valid_date (plus_days d n)"
    and "toordinal (plus_days d n) = toordinal d + n"
proof -
  from toordinal_bounds(1) [OF assms(1)] assms(2) have lo: "1 \<le> toordinal d + n" by simp
  then show "date_add d n = Inr (plus_days d n)"
    using assms(3) by (simp add: date_add_def plus_days_def)
  show "valid_date (plus_days d n)"
    unfolding plus_days_def using lo assms(3) by (rule ord2ymd_valid)
  show "toordinal (plus_days d n) = toordinal d + n"
    unfolding plus_days_def using lo by (rule toordinal_ord2ymd)
qed

lemma weekend_not_last:
  assumes "valid_date d"
  shows "weekday d = 5 \<Longrightarrow> toordinal d + 2 \<le> MAXORDINAL"
    and "weekday d = 6 \<Longrightarrow> toordinal d + 1 \<le> MAXORDINAL"
proof -
  define t where "t = toordinal d"
  have t: "t \<le> 3652059"
    using toordinal_bounds(2) [OF assms] by (simp add: t_def MAXORDINAL_def)
  show "toordinal d + 2 \<le> MAXORDINAL" if "weekday d = 5"
  proof -
    from that have "(t + 6) mod 7 = 5" by (simp add: weekday_def t_def)
    with t have "t + 2 \<le> 3652059" by presburger
    then show ?thesis by (simp add: t_def MAXORDINAL_def)
  qed
  show "toordinal d + 1 \<le> MAXORDINAL" if "weekday d = 6"
  proof -
    from that have "(t + 6) mod 7 = 6" by (simp add: weekday_def t_def)
    with t have "t + 1 \<le> 3652059" by presburger
    then show ?thesis by (simp add: t_def MAXORDINAL_def)
  qed
qed

lemma shift_if_weekend_shifted:
  assumes "valid_date d"
  shows "shift_if_weekend d = Inr (shifted d)" and "valid_date (shifted d)"
proof -
  consider "weekday d = 5" | "weekday d \<noteq> 5" "weekday d = 6" | "weekday d \<noteq> 5" "weekday d \<noteq> 6"
    by blast
  then have "shift_if_weekend d = Inr (shifted d) \<and> valid_date (shifted d)"
  proof cases
    case 1
    with date_add_plus_days(1,2) [OF assms _ weekend_not_last(1) [OF assms]]
    show ?thesis by (simp add: shift_if_weekend_def shifted_def)
  next
    case 2
    with date_add_plus_days(1,2) [OF assms _ weekend_not_last(2) [OF assms]]
    show ?thesis by (simp add: shift_if_weekend_def shifted_def)
  next
    case 3
    with assms show ?thesis by (simp add: shift_if_weekend_def shifted_def)
  qed
  then show "shift_if_weekend d = Inr (shifted d)" and "valid_date (shifted d)" by simp_all
qed

lemma greeting_projectable:
  assumes "valid_date today" "strptime v = Inr d" "projectable today d"
  shows "greeting today v = Inr (shifted (projected today d))"
    and "valid_date (shifted (projected today d))"
proof -
  have vd: "valid_date d" using assms(2) by (rule strptime_valid)
  then have m: "1 \<le> month d" "month d \<le> 12" "1 \<le> day d"
    by (simp_all add: valid_date_def)
  from assms(1) have y: "1 \<le> year today" "year today \<le> 9999"
    by (simp_all add: valid_date_def)
  from assms(3) have p1: "day d \<le> days_in_month (year today) (month d)"
    by (simp add: projectable_def)
  have r1: "replace_year d (year today) = Inr (d\<lparr>year := year today\<rparr>)"
    using m y p1 by (simp add: replace_year_def make_date_def)
  have "(if date_lt (d\<lparr>year := year today\<rparr>) today
         then replace_year (d\<lparr>year := year today\<rparr>) (year today + 1)
         else Inr (d\<lparr>year := year today\<rparr>)) = Inr (projected today d)
        \<and> valid_date (projected today d)"
  proof (cases "date_lt (d\<lparr>year := year today\<rparr>) today")
    case True
    with assms(3) have "year today < 9999" "day d \<le> days_in_month (year today + 1) (month d)"
      by (simp_all add: projectable_def)
    with True m y show ?thesis
      by (simp add: replace_year_def make_date_def projected_def valid_date_def)
  next
    case False
    with m y p1 show ?thesis by (simp add: projected_def valid_date_def)
  qed
  then have r2: "(if date_lt (d\<lparr>year := year today\<rparr>) today
         then replace_year (d\<lparr>year := year today\<rparr>) (year today + 1)
         else Inr (d\<lparr>year := year today\<rparr>)) = Inr (projected today d)"
    and vp: "valid_date (projected today d)" by simp_all
  show "greeting today v = Inr (shifted (projected today d))"
    unfolding greeting_def assms(2) by (simp add: r1 r2 shift_if_weekend_shifted(1) [OF vp])
  show "valid_date (shifted (projected today d))"
    using vp by (rule shift_if_weekend_shifted(2))
qed

lemma insort_key_map:
  "insort_key f (h x) (map h xs) = map h (insort_key (\<lambda>x. f (h x)) x xs)"
  by (induction xs) simp_all

lemma sort_key_map: "sort_key f (map h xs) = map h (sort_key (\<lambda>x. f (h x)) xs)"
  by (induction xs) (simp_all add: insort_key_map)

lemma insort_key_cong_order:
  "\<forall>y \<in> set xs. (f x \<le> f y) = (g x \<le> g y) \<Longrightarrow> insort_key f x xs = insort_key g x xs"
  by (induction xs) simp_all

lemma sort_key_cong_order:
  "\<forall>x \<in> set xs. \<forall>y \<in> set xs. (f x \<le> f y) = (g x \<le> g y) \<Longrightarrow> sort_key f xs = sort_key g xs"
proof (induction xs)
  case Nil
  then show ?case by simp
next
  case (Cons x xs)
  then have "sort_key f xs = sort_key g xs" by simp
  moreover have "insort_key f x (sort_key g xs) = insort_key g x (sort_key g xs)"
    using Cons.prems by (intro insort_key_cong_order) simp
  ultimately show ?case by simp
qed

lemma date_tuple_le_toordinal:
  "valid_date a \<Longrightarrow> valid_date b \<Longrightarrow> (date_tuple a \<le> date_tuple b) = (toordinal a \<le> toordinal b)"
  using date_le_toordinal [of a b] by (simp add: date_le_def)

lemma year_mono:
  assumes "valid_date a" "valid_date b" "toordinal a \<le> toordinal b"
  shows "year a \<le> year b"
proof (rule ccontr)
  assume "\<not> year a \<le> year b"
  then have "date_lt b a" by (simp add: date_lt_def date_tuple_def)
  with date_lt_toordinal [OF assms(2,1)] assms(3) show False by simp
qed

lemma shifted_year:
  assumes "valid_date d"
  shows "year d \<le> year (shifted d)"
proof -
  have "toordinal d \<le> toordinal (shifted d)"
  proof (cases "weekday d = 5")
    case True
    with date_add_plus_days(3) [OF assms _ weekend_not_last(1) [OF assms]]
    show ?thesis by (simp add: shifted_def)
  next
    case sat: False
    show ?thesis
    proof (cases "weekday d = 6")
      case True
      with sat date_add_plus_days(3) [OF assms _ weekend_not_last(2) [OF assms]]
      show ?thesis by (simp add: shifted_def)
    next
      case False
      with sat show ?thesis by (simp add: shifted_def)
    qed
  qed
  with assms shift_if_weekend_shifted(2) [OF assms] show ?thesis
    by (rule year_mono)
qed

lemma projected_valid:
  assumes "valid_date today" "valid_date d" "projectable today d"
  shows "valid_date (projected today d)" and "year today \<le> year (projected today d)"
proof -
  from assms(2) have m: "1 \<le> month d" "month d \<le> 12" "1 \<le> day d"
    by (simp_all add: valid_date_def)
  from assms(1) have y: "1 \<le> year today" "year today \<le> 9999"
    by (simp_all add: valid_date_def)
  show "valid_date (projected today d)"
    using assms(3) m y by (simp add: projectable_def projected_def valid_date_def split: if_splits)
  show "year today \<le> year (projected today d)"
    by (simp add: projected_def)
qed

lemma greeting_year:
  assumes "valid_date today" "strptime v = Inr d" "projectable today d"
  shows "year today \<le> year (shifted (projected today d))"
proof -
  note p = projected_valid [OF assms(1) strptime_valid [OF assms(2)] assms(3)]
  from p(2) shifted_year [OF p(1)] show ?thesis by simp
qed

text \<open>The records of a book whose birthdays can be projected.\<close>

lemma collect_projectable:
  assumes "valid_date today" "valid_date end_date"
    and "\<forall>r \<in> set rs. \<forall>v. birthday r = Some v \<longrightarrow> (\<exists>d. strptime v = Inr d \<and> projectable today d)"
  shows "collect today end_date rs acc =
           Inr (acc @ map (\<lambda>rg. (name (fst rg), strftime (snd rg)))
                 (filter (\<lambda>rg. toordinal today \<le> toordinal (snd rg)
                              \<and> toordinal (snd rg) \<le> toordinal end_date)
                    (map (\<lambda>r. (r, greeting_date today r)) (filter (\<lambda>r. birthday r \<noteq> None) rs))))"
  using assms(3)
proof (induction rs arbitrary: acc)
  case Nil
  then show ?case by simp
next
  case (Cons r rs)
  then have IH: "\<And>acc. collect today end_date rs acc =
           Inr (acc @ map (\<lambda>rg. (name (fst rg), strftime (snd rg)))
                 (filter (\<lambda>rg. toordinal today \<le> toordinal (snd rg)
                              \<and> toordinal (snd rg) \<le> toordinal end_date)
                    (map (\<lambda>r. (r, greeting_date today r)) (filter (\<lambda>r. birthday r \<noteq> None) rs))))"
    by simp
  show ?case
  proof (cases "birthday r")
    case None
    then show ?thesis by (simp add: IH)
  next
    case (Some v)
    with Cons.prems obtain d where d: "strptime v = Inr d" "projectable today d"
      by auto
    have g: "greeting_date today r = shifted (projected today d)"
      by (simp add: greeting_date_def birthday_of_def Some d(1))
    note gr = greeting_projectable [OF assms(1) d]
    have le1: "date_le today (greeting_date today r)
        = (toordinal today \<le> toordinal (greeting_date today r))"
      unfolding g using assms(1) gr(2) by (rule date_le_toordinal)
    have le2: "date_le (greeting_date today r) end_date
        = (toordinal (greeting_date today r) \<le> toordinal end_date)"
      unfolding g using gr(2) assms(2) by (rule date_le_toordinal)
    show ?thesis
      using le1 le2 by (simp add: Some gr(1) IH g)
  qed
qed

lemma greeting_dates_valid:
  assumes "valid_date today"
    and "\<forall>r \<in> set rs. \<forall>v. birthday r = Some v \<longrightarrow> (\<exists>d. strptime v = Inr d \<and> projectable today d)"
    and "r \<in> set rs" "birthday r \<noteq> None"
  shows "valid_date (greeting_date today r)" and "year today \<le> year (greeting_date today r)"
proof -
  from assms(4) obtain v where v: "birthday r = Some v" by auto
  with assms(2,3) obtain d where d: "strptime v = Inr d" "projectable today d" by blast
  from v d show "valid_date (greeting_date today r)"
    using greeting_projectable(2) [OF assms(1), of v d]
    by (simp add: greeting_date_def birthday_of_def)
  from v d show "year today \<le> year (greeting_date today r)"
    using greeting_year [OF assms(1), of v d]
    by (simp add: greeting_date_def birthday_of_def)
qed

lemma sort_keys_formatted:
  "\<forall>rg \<in> set xs. valid_date (snd rg) \<and> 1000 \<le> year (snd rg) \<Longrightarrow>
   sort_keys (map (\<lambda>rg. (name (fst rg), strftime (snd rg))) xs)
     = Inr (map (\<lambda>rg. (snd rg, (name (fst rg), strftime (snd rg)))) xs)"
  by (induction xs) (simp_all add: strptime_strftime)

lemma sort_by_date_formatted:
  assumes "\<forall>rg \<in> set xs. valid_date (snd rg) \<and> 1000 \<le> year (snd rg)"
  shows "sort_by_date (map (\<lambda>rg. (name (fst rg), strftime (snd rg))) xs)
     = Inr (map (\<lambda>rg. (name (fst rg), strftime (snd rg))) (sort_key (\<lambda>rg. toordinal (snd rg)) xs))"
proof -
  have "sort_key (\<lambda>rg. date_tuple (snd rg)) xs = sort_key (\<lambda>rg. toordinal (snd rg)) xs"
    using assms by (intro sort_key_cong_order) (simp add: date_tuple_le_toordinal)
  then show ?thesis
    by (simp add: sort_by_date_def sort_keys_formatted [OF assms] sort_key_map o_def)
qed

lemma strptime_0301: "strptime (ascii ''03.01.1990'') = Inr \<lparr>year = 1990, month = 1, day = 3\<rparr>"
  unfolding ascii_0301 by (simp add: strptime_eval)

lemma strptime_0601: "strptime (ascii ''06.01.1990'') = Inr \<lparr>year = 1990, month = 1, day = 6\<rparr>"
  unfolding ascii_0601 by (simp add: strptime_eval)

text \<open>
  Claim C1: for every book, every window of at least one day and every date of today,
  \<^verbatim>\<open>get_upcoming_birthdays\<close> projects each birthday onto the year of today, or the
  next when that date is before today, shifts a Saturday 2 days and a Sunday 1 day,
  includes the record exactly when the shifted date is in the window, returns the
  entries sorted by the shifted date, and leaves the book as it is. It does not return
  for every input: a birthday of 29 February cannot be moved into a year that is not a
  leap year, and \<^verbatim>\<open>replace\<close> raises; a window that ends after the last date of
  the calendar, 31.12.9999, raises when its end is computed; and a greeting date in a
  year before 1000 is formatted with fewer than four digits, which the key of the sort
  does not parse.
\<close>

theorem upcoming_birthdays_raises_counterexample:
  "get_upcoming_birthdays
       [(ascii ''bob'', \<lparr>name = ascii ''Bob'', phones = [], birthday = Some (ascii ''29.02.2024'')\<rparr>)]
       7 \<lparr>year = 2025, month = 11, day = 3\<rparr>
     = (Inl (ValueError DayOutOfRange),
        [(ascii ''bob'', \<lparr>name = ascii ''Bob'', phones = [], birthday = Some (ascii ''29.02.2024'')\<rparr>)])
   \<and> get_upcoming_birthdays [] 4000000 \<lparr>year = 2024, month = 1, day = 1\<rparr> = (Inl OverflowError, [])
   \<and> get_upcoming_birthdays
       [(ascii ''ann'', \<lparr>name = ascii ''Ann'', phones = [], birthday = Some (ascii ''03.01.1990'')\<rparr>)]
       7 \<lparr>year = 999, month = 1, day = 1\<rparr>
     = (Inl (ValueError TimeDataMismatch),
        [(ascii ''ann'', \<lparr>name = ascii ''Ann'', phones = [], birthday = Some (ascii ''03.01.1990'')\<rparr>)])"
proof -
  have far: "date_add \<lparr>year = 2024, month = 1, day = 1\<rparr> 3999999 = Inl OverflowError"
    by (simp add: date_add_def toordinal_def days_before_year_def days_before_month_def
        DAYS_BEFORE_MONTH_def MAXORDINAL_def)
  have e: "date_add \<lparr>year = 999, month = 1, day = 1\<rparr> 6 = Inr \<lparr>year = 999, month = 1, day = 7\<rparr>"
    by (simp add: date_eval)
  have g: "greeting \<lparr>year = 999, month = 1, day = 1\<rparr> (ascii ''03.01.1990'')
      = Inr \<lparr>year = 999, month = 1, day = 3\<rparr>"
    by (simp add: greeting_def strptime_0301 date_eval)
  have f: "strftime \<lparr>year = 999, month = 1, day = 3\<rparr> = [48, 51, 46, 48, 49, 46, 57, 57, 57]"
    by (simp add: strftime_eval)
  have p: "strptime [48, 51, 46, 48, 49, 46, 57, 57, 57] = Inl (ValueError TimeDataMismatch)"
    by (simp add: regex_eval)
  show ?thesis
    by (simp add: get_upcoming_birthdays_def far end_date_2025 greeting_2902_2025 e g f p
        date_le_def date_tuple_def sort_by_date_def)
qed

text \<open>
  Claim C1 as the code has it: for every book whose birthdays are dates in the pattern,
  every window of at least one day that ends on a date of the calendar and every date
  of today from the year 1000 on, provided that every birthday can be projected (no 29 February is moved into
  a year that is not a leap year, and no birthday beyond the year 9999),
  \<^verbatim>\<open>get_upcoming_birthdays\<close> returns the entries of \<open>upcoming\<close>, name and
  formatted greeting date: the records with a birthday whose shifted projected date is
  in the window, exactly those, sorted by that date, records with the same date in the
  order of the book; and the book is as before.
\<close>

theorem upcoming_birthdays_when_projectable:
  assumes "valid_date today" and "1 \<le> days" and "toordinal today + (days - 1) \<le> MAXORDINAL"
    and "1000 \<le> year today"
    and "\<forall>r \<in> set (map snd b). \<forall>v. birthday r = Some v \<longrightarrow>
           (\<exists>d. strptime v = Inr d \<and> projectable today d)"
  shows "get_upcoming_birthdays b days today
           = (Inr (map (\<lambda>rg. (name (fst rg), strftime (snd rg))) (upcoming b days today)), b)
       \<and> sorted (map (\<lambda>rg. toordinal (snd rg)) (upcoming b days today))
       \<and> set (upcoming b days today)
           = {(r, greeting_date today r) | r.
                r \<in> snd ` set b \<and> birthday r \<noteq> None \<and> in_window today days (greeting_date today r)}"
proof (intro conjI)
  have n: "0 \<le> days - 1" using assms(2) by simp
  note e = date_add_plus_days [OF assms(1) n assms(3)]
  note h = assms(5)
  let ?F = "filter (\<lambda>rg. in_window today days (snd rg))
      (map (\<lambda>r. (r, greeting_date today r)) (filter (\<lambda>r. birthday r \<noteq> None) (map snd b)))"
  have c: "collect today (plus_days today (days - 1)) (map snd b) []
      = Inr (map (\<lambda>rg. (name (fst rg), strftime (snd rg))) ?F)"
    unfolding collect_projectable [OF assms(1) e(2) h] e(3) in_window_def by simp
  have v: "\<forall>rg \<in> set ?F. valid_date (snd rg) \<and> 1000 \<le> year (snd rg)"
    using greeting_dates_valid [OF assms(1) h] assms(4) by fastforce
  show "get_upcoming_birthdays b days today
           = (Inr (map (\<lambda>rg. (name (fst rg), strftime (snd rg))) (upcoming b days today)), b)"
    by (simp only: get_upcoming_birthdays_def e(1) c sort_by_date_formatted [OF v] upcoming_def
        sum.case)
  show "sorted (map (\<lambda>rg. toordinal (snd rg)) (upcoming b days today))"
    unfolding upcoming_def by (rule sorted_sort_key)
  show "set (upcoming b days today)
           = {(r, greeting_date today r) | r.
                r \<in> snd ` set b \<and> birthday r \<noteq> None \<and> in_window today days (greeting_date today r)}"
    unfolding upcoming_def by (auto simp: image_iff)
qed

lemmas spec_eval =
  upcoming_def greeting_date_def birthday_of_def shifted_def projected_def plus_days_def
  in_window_def projectable_def valid_date_def

theorem upcoming_birthdays_when_projectable_witness:
  "valid_date \<lparr>year = 2024, month = 1, day = 1\<rparr>
   \<and> toordinal \<lparr>year = 2024, month = 1, day = 1\<rparr> + (8 - 1) \<le> MAXORDINAL
   \<and> 1000 \<le> year \<lparr>year = 2024, month = 1, day = 1\<rparr>
   \<and> strptime (ascii ''03.01.1990'') = Inr \<lparr>year = 1990, month = 1, day = 3\<rparr>
   \<and> projectable \<lparr>year = 2024, month = 1, day = 1\<rparr> \<lparr>year = 1990, month = 1, day = 3\<rparr>
   \<and> strptime (ascii ''06.01.1990'') = Inr \<lparr>year = 1990, month = 1, day = 6\<rparr>
   \<and> projectable \<lparr>year = 2024, month = 1, day = 1\<rparr> \<lparr>year = 1990, month = 1, day = 6\<rparr>
   \<and> upcoming
        [(ascii ''bob'', \<lparr>name = ascii ''Bob'', phones = [], birthday = Some (ascii ''06.01.1990'')\<rparr>),
         (ascii ''ann'', \<lparr>name = ascii ''Ann'', phones = [], birthday = Some (ascii ''03.01.1990'')\<rparr>),
         (ascii ''abc'', \<lparr>name = ascii ''abc'', phones = [], birthday = None\<rparr>)]
        8 \<lparr>year = 2024, month = 1, day = 1\<rparr>
       = [(\<lparr>name = ascii ''Ann'', phones = [], birthday = Some (ascii ''03.01.1990'')\<rparr>,
           \<lparr>year = 2024, month = 1, day = 3\<rparr>),
          (\<lparr>name = ascii ''Bob'', phones = [], birthday = Some (ascii ''06.01.1990'')\<rparr>,
           \<lparr>year = 2024, month = 1, day = 8\<rparr>)]
   \<and> get_upcoming_birthdays
        [(ascii ''bob'', \<lparr>name = ascii ''Bob'', phones = [], birthday = Some (ascii ''06.01.1990'')\<rparr>),
         (ascii ''ann'', \<lparr>name = ascii ''Ann'', phones = [], birthday = Some (ascii ''03.01.1990'')\<rparr>),
         (ascii ''abc'', \<lparr>name = ascii ''abc'', phones = [], birthday = None\<rparr>)]
        8 \<lparr>year = 2024, month = 1, day = 1\<rparr>
       = (Inr [(ascii ''Ann'', ascii ''03.01.2024''), (ascii ''Bob'', ascii ''08.01.2024'')],
          [(ascii ''bob'', \<lparr>name = ascii ''Bob'', phones = [], birthday = Some (ascii ''06.01.1990'')\<rparr>),
           (ascii ''ann'', \<lparr>name = ascii ''Ann'', phones = [], birthday = Some (ascii ''03.01.1990'')\<rparr>),
           (ascii ''abc'', \<lparr>name = ascii ''abc'', phones = [], birthday = None\<rparr>)])"
proof -
  let ?today = "\<lparr>year = 2024, month = 1, day = 1\<rparr>"
  let ?book = "[(ascii ''bob'', \<lparr>name = ascii ''Bob'', phones = [], birthday = Some (ascii ''06.01.1990'')\<rparr>),
         (ascii ''ann'', \<lparr>name = ascii ''Ann'', phones = [], birthday = Some (ascii ''03.01.1990'')\<rparr>),
         (ascii ''abc'', \<lparr>name = ascii ''abc'', phones = [], birthday = None\<rparr>)]"
  have v: "valid_date ?today"
    by (simp add: valid_date_def calendar_eval)
  have m: "toordinal ?today + (8 - 1) \<le> MAXORDINAL"
    by (simp add: date_eval)
  have p: "projectable ?today \<lparr>year = 1990, month = 1, day = 3\<rparr>"
      "projectable ?today \<lparr>year = 1990, month = 1, day = 6\<rparr>"
    by (simp_all add: projectable_def date_lt_def date_tuple_def calendar_eval)
  have h: "\<forall>r \<in> set (map snd ?book). \<forall>v. birthday r = Some v \<longrightarrow>
           (\<exists>d. strptime v = Inr d \<and> projectable ?today d)"
    using p by (simp add: strptime_0301 strptime_0601)
  have u: "upcoming ?book 8 ?today
       = [(\<lparr>name = ascii ''Ann'', phones = [], birthday = Some (ascii ''03.01.1990'')\<rparr>,
           \<lparr>year = 2024, month = 1, day = 3\<rparr>),
          (\<lparr>name = ascii ''Bob'', phones = [], birthday = Some (ascii ''06.01.1990'')\<rparr>,
           \<lparr>year = 2024, month = 1, day = 8\<rparr>)]"
    by (simp add: spec_eval strptime_0301 strptime_0601 date_eval)
  from upcoming_birthdays_when_projectable [OF v _ m _ h] v m p u show ?thesis
    by (simp add: strptime_0301 strptime_0601 strftime_2024)
qed

end
